theory Spec2Isabelle
  imports Complex_Main
begin

section \<open>Data model\<close>

text \<open>
  The program is a Python 2 script that drives an ensemble sampler over numpy arrays.
  Floating-point numbers are modelled by \<^typ>\<open>real\<close>; Python's unbounded integers by
  \<^typ>\<open>int\<close>; array extents by \<^typ>\<open>nat\<close>.  Exceptions a numpy or list operation of
  the source can raise are values of \<open>py_error\<close>.
\<close>

datatype py_error = IndexError | ValueError | IOError | TypeError

text \<open>
  A parameter descriptor is one of the dictionaries the pool hands out
  (\<^verbatim>\<open>par['val_init']\<close>, \<^verbatim>\<open>par['log']\<close>, ...).
\<close>

record par =
  par_name :: string
  par_unit :: string
  val_init :: real
  val_delta :: real
  val_sigma :: real
  val_hardmin :: real
  val_hardmax :: real
  par_log :: bool

section \<open>getInitialParameters\<close>

text \<open>
  \<^verbatim>\<open>N.clip(v, lo, hi)\<close> is \<^verbatim>\<open>minimum(maximum(v, lo), hi)\<close>.
\<close>

definition np_clip :: "real \<Rightarrow> real \<Rightarrow> real \<Rightarrow> real" where
  "np_clip v lo hi = min (max v lo) hi"

text \<open>
  The inner loop over the parameters of one walker.  The random generator is the
  parameter \<open>normal\<close>: \<open>normal mu w k\<close> is what the \<open>k\<close>-th call of
  \<^verbatim>\<open>N.random.normal\<close> returns when asked for centre \<open>mu\<close> and spread \<open>w\<close>.
  The counter makes every call of the generator visible.  The generator is taken to
  return a number for every spread: which spreads numpy refuses (a negative one; zero
  as well in old versions) is not part of the model.
\<close>

fun walker_values :: "(real \<Rightarrow> real \<Rightarrow> nat \<Rightarrow> real) \<Rightarrow> par list \<Rightarrow> nat \<Rightarrow> real list" where
  "walker_values normal [] k = []"
| "walker_values normal (p # ps) k =
     (let width = val_delta p;
          swidth = val_sigma p * 0.1;
          width = (if swidth > 0 \<and> swidth < width then swidth else width);
          v = normal (val_init p) width k;
          v = np_clip v (val_hardmin p) (val_hardmax p)
      in v # walker_values normal ps (Suc k))"

text \<open>The outer loop \<^verbatim>\<open>for walker in xrange(nwalkers)\<close>.\<close>

fun walkers :: "(real \<Rightarrow> real \<Rightarrow> nat \<Rightarrow> real) \<Rightarrow> par list \<Rightarrow> nat \<Rightarrow> nat \<Rightarrow> real list list" where
  "walkers normal ps 0 k = []"
| "walkers normal ps (Suc n) k =
     walker_values normal ps k # walkers normal ps n (k + length ps)"

definition getInitialParameters ::
  "(real \<Rightarrow> real \<Rightarrow> nat \<Rightarrow> real) \<Rightarrow> par list \<Rightarrow> int \<Rightarrow> real list list" where
  "getInitialParameters normal parameters nwalkers = walkers normal parameters (nat nwalkers) 0"

section \<open>expandSystems\<close>

text \<open>
  The character classes of the pattern \<^verbatim>\<open>([A-Za-z0-9]+)\*([0-9]+)\<close>, on the bytes of
  a Python 2 string.
\<close>

definition is_digit :: "char \<Rightarrow> bool" where
  "is_digit c = (let n = (of_char c :: nat) in 48 \<le> n \<and> n \<le> 57)"

definition is_alnum :: "char \<Rightarrow> bool" where
  "is_alnum c = (let n = (of_char c :: nat) in
     (65 \<le> n \<and> n \<le> 90) \<or> (97 \<le> n \<and> n \<le> 122) \<or> (48 \<le> n \<and> n \<le> 57))"

text \<open>
  \<^verbatim>\<open>re.match\<close> anchors the pattern at the start of the string only.  Both groups are
  greedy; a shorter first group can never be followed by the star (the next character
  would be alphanumeric), and a shorter second group is never needed since nothing
  follows it in the pattern.  So the match, when there is one, has the longest
  alphanumeric prefix as group 1 and the longest digit run after the star as group 2.
\<close>

definition re_match :: "string \<Rightarrow> (string \<times> string) option" where
  "re_match s =
     (let g1 = takeWhile is_alnum s; r = dropWhile is_alnum s in
      if g1 = [] then None
      else (case r of
              [] \<Rightarrow> None
            | c # r' \<Rightarrow>
                if c \<noteq> CHR ''*'' then None
                else (let g2 = takeWhile is_digit r' in
                      if g2 = [] then None else Some (g1, g2))))"

text \<open>\<^verbatim>\<open>int(m.group(2))\<close> on a non-empty string of decimal digits.\<close>

definition int_of_digits :: "string \<Rightarrow> nat" where
  "int_of_digits ds = foldl (\<lambda>acc c. 10 * acc + (of_char c - 48)) 0 ds"

fun expandSystems :: "string list \<Rightarrow> string list" where
  "expandSystems [] = []"
| "expandSystems (s # systems) =
     (case re_match s of
        Some (g1, g2) \<Rightarrow> replicate (int_of_digits g2) g1 @ expandSystems systems
      | None \<Rightarrow> s # expandSystems systems)"

section \<open>numpy arrays\<close>

text \<open>
  A numpy array carries its shape beside its elements: an array of shape \<open>(n, 0, d)\<close>
  still knows \<open>d\<close>.  The chain buffer is indexed \<open>[walker, iteration, parameter]\<close>,
  the log-probability buffer \<open>[walker, iteration]\<close>.
\<close>

record arr3 =
  shape0 :: nat
  shape1 :: nat
  shape2 :: nat
  data3 :: "real list list list"

record arr2 =
  nrows :: nat
  ncols :: nat
  data2 :: "real list list"

text \<open>The elements agree with the shape (true of every array numpy builds).\<close>

definition wf3 :: "arr3 \<Rightarrow> bool" where
  "wf3 a = (length (data3 a) = shape0 a \<and>
     list_all (\<lambda>w. length w = shape1 a \<and> list_all (\<lambda>v. length v = shape2 a) w) (data3 a))"

definition wf2 :: "arr2 \<Rightarrow> bool" where
  "wf2 a = (length (data2 a) = nrows a \<and> list_all (\<lambda>w. length w = ncols a) (data2 a))"

text \<open>\<^verbatim>\<open>N.zeros(shape)\<close> raises \<^verbatim>\<open>ValueError\<close> on a negative extent.\<close>

definition zeros3 :: "int \<Rightarrow> int \<Rightarrow> int \<Rightarrow> py_error + arr3" where
  "zeros3 a b c =
     (if a < 0 \<or> b < 0 \<or> c < 0 then Inl ValueError
      else Inr \<lparr>shape0 = nat a, shape1 = nat b, shape2 = nat c,
                data3 = replicate (nat a) (replicate (nat b) (replicate (nat c) 0))\<rparr>)"

definition zeros2 :: "int \<Rightarrow> int \<Rightarrow> py_error + arr2" where
  "zeros2 a b =
     (if a < 0 \<or> b < 0 then Inl ValueError
      else Inr \<lparr>nrows = nat a, ncols = nat b,
                data2 = replicate (nat a) (replicate (nat b) 0)\<rparr>)"

text \<open>
  \<^verbatim>\<open>N.concatenate((a, b), axis=1)\<close>: the other extents must agree, else
  \<^verbatim>\<open>ValueError\<close>.
\<close>

definition concatenate3 :: "arr3 \<Rightarrow> arr3 \<Rightarrow> py_error + arr3" where
  "concatenate3 a b =
     (if shape0 a = shape0 b \<and> shape2 a = shape2 b
      then Inr \<lparr>shape0 = shape0 a, shape1 = shape1 a + shape1 b, shape2 = shape2 a,
                data3 = map2 (@) (data3 a) (data3 b)\<rparr>
      else Inl ValueError)"

definition concatenate2 :: "arr2 \<Rightarrow> arr2 \<Rightarrow> py_error + arr2" where
  "concatenate2 a b =
     (if nrows a = nrows b
      then Inr \<lparr>nrows = nrows a, ncols = ncols a + ncols b,
                data2 = map2 (@) (data2 a) (data2 b)\<rparr>
      else Inl ValueError)"

text \<open>
  \<^verbatim>\<open>N.array(chain[:, -1, :])\<close>: a copy of the last iteration of every walker;
  \<^verbatim>\<open>IndexError\<close> when the iteration axis is empty.
\<close>

definition last_iteration :: "arr3 \<Rightarrow> py_error + real list list" where
  "last_iteration a = (if shape1 a = 0 then Inl IndexError else Inr (map last (data3 a)))"

text \<open>
  \<^verbatim>\<open>chain[:, index, :] = p\<close> and \<^verbatim>\<open>lnprob[:, index] = l\<close>, for \<open>p\<close> of shape
  \<open>(shape0, shape2)\<close> and \<open>l\<close> of shape \<open>(nrows)\<close> as the sampler yields them.
  An index past the iteration axis raises \<^verbatim>\<open>IndexError\<close>; a right-hand side of
  another shape is refused with \<^verbatim>\<open>ValueError\<close> (numpy's broadcasting of smaller
  right-hand sides is not modelled).
\<close>

definition set_iteration3 :: "arr3 \<Rightarrow> nat \<Rightarrow> real list list \<Rightarrow> py_error + arr3" where
  "set_iteration3 a i p =
     (if \<not> i < shape1 a then Inl IndexError
      else if \<not> (length p = shape0 a \<and> list_all (\<lambda>v. length v = shape2 a) p) then Inl ValueError
      else Inr (a\<lparr>data3 := map2 (\<lambda>row v. row[i := v]) (data3 a) p\<rparr>))"

definition set_iteration2 :: "arr2 \<Rightarrow> nat \<Rightarrow> real list \<Rightarrow> py_error + arr2" where
  "set_iteration2 a i l =
     (if \<not> i < ncols a then Inl IndexError
      else if length l \<noteq> nrows a then Inl ValueError
      else Inr (a\<lparr>data2 := map2 (\<lambda>row x. row[i := x]) (data2 a) l\<rparr>))"

text \<open>
  The stop of the Python slice \<^verbatim>\<open>[:m]\<close> on an axis of extent \<open>n\<close>: a negative
  \<open>m\<close> counts from the end.
\<close>

definition slice_stop :: "nat \<Rightarrow> int \<Rightarrow> nat" where
  "slice_stop n m = (if m < 0 then nat (int n + m) else min n (nat m))"

text \<open>\<^verbatim>\<open>N.array(chain)[:, :maxindex, :]\<close> and \<^verbatim>\<open>N.array(lnprob)[:, :maxindex]\<close>.\<close>

definition slice3 :: "arr3 \<Rightarrow> int \<Rightarrow> arr3" where
  "slice3 a m = a\<lparr>shape1 := slice_stop (shape1 a) m,
                    data3 := map (take (slice_stop (shape1 a) m)) (data3 a)\<rparr>"

definition slice2 :: "arr2 \<Rightarrow> int \<Rightarrow> arr2" where
  "slice2 a m = a\<lparr>ncols := slice_stop (ncols a) m,
                    data2 := map (take (slice_stop (ncols a) m)) (data2 a)\<rparr>"

section \<open>Observable effects\<close>

text \<open>
  What a run does to the outside world, in the order it does it: a burn-in of the
  sampler, one sampling step (tagged with the cursor it was stored at), a checkpoint
  written with \<^verbatim>\<open>N.savez\<close> (file name, \<^verbatim>\<open>chain\<close>, \<^verbatim>\<open>lnprobability\<close>), and
  a text chain file (file name and its lines, without the newline that ends each).
  Progress messages printed to the terminal are left out.
\<close>

datatype event =
  BurnIn int
| Step nat
| WroteNpz string arr3 arr2
| WroteChain string "string list"

section \<open>writeNpz\<close>

definition writeNpz :: "string \<Rightarrow> arr3 \<Rightarrow> arr2 \<Rightarrow> int \<Rightarrow> event" where
  "writeNpz filename chain lnprob maxindex =
     (if maxindex < int (shape1 chain)
      then WroteNpz filename (slice3 chain maxindex) (slice2 lnprob maxindex)
      else WroteNpz filename chain lnprob)"

section \<open>writeXSpecChain\<close>

text \<open>
  The exporter rebinds its local name \<^verbatim>\<open>chain\<close> to a new array and then assigns into
  that array in place.  Whether the caller's buffer is touched depends on which object
  the name refers to, so the arrays live in a store: a list of array objects, an
  object's address being its position.  Allocation appends.
\<close>

datatype ndarray = A3 arr3 | A2 arr2

type_synonym store = "ndarray list"

text \<open>Python list indexing \<^verbatim>\<open>xs[i]\<close>: a negative index counts from the end.\<close>

definition py_index :: "'a list \<Rightarrow> int \<Rightarrow> py_error + 'a" where
  "py_index xs i =
     (if 0 \<le> i \<and> i < int (length xs) then Inr (xs ! nat i)
      else if i < 0 \<and> - int (length xs) \<le> i then Inr (xs ! nat (int (length xs) + i))
      else Inl IndexError)"

text \<open>The format \<^verbatim>\<open>%i\<close>: the decimal digits of an integer.\<close>

fun digits :: "nat \<Rightarrow> string" where
  "digits n = (if n < 10 then [char_of (48 + n)]
               else digits (n div 10) @ [char_of (48 + n mod 10)])"

definition fmt_i :: "int \<Rightarrow> string" where
  "fmt_i i = (if i < 0 then CHR ''-'' # digits (nat (- i)) else digits (nat i))"

text \<open>\<^verbatim>\<open>sep.join(xs)\<close>.\<close>

fun join :: "string \<Rightarrow> string list \<Rightarrow> string" where
  "join sep [] = []"
| "join sep [x] = x"
| "join sep (x # y # ys) = x @ sep @ join sep (y # ys)"

text \<open>
  \<^verbatim>\<open>N.reshape(chain, (length, width))\<close> in C order: the rows of walker 0, then those
  of walker 1, and so on.
\<close>

definition reshape_chain :: "arr3 \<Rightarrow> arr2" where
  "reshape_chain c = \<lparr>nrows = shape0 c * shape1 c, ncols = shape2 c, data2 = concat (data3 c)\<rparr>"

text \<open>
  \<^verbatim>\<open>N.reshape(-lnprob*2, (length, 1))\<close>: a new array; \<^verbatim>\<open>ValueError\<close> unless it has
  \<open>length\<close> elements.
\<close>

definition reshape_lnprob :: "arr2 \<Rightarrow> nat \<Rightarrow> py_error + arr2" where
  "reshape_lnprob l len =
     (if nrows l * ncols l \<noteq> len then Inl ValueError
      else Inr \<lparr>nrows = len, ncols = 1, data2 = map (\<lambda>x. [- x * 2]) (concat (data2 l))\<rparr>)"

text \<open>\<^verbatim>\<open>N.column_stack\<close> of two-dimensional arrays joins them along axis 1.\<close>

definition column_stack :: "arr2 \<Rightarrow> arr2 \<Rightarrow> py_error + arr2" where
  "column_stack a b = concatenate2 a b"

text \<open>\<^verbatim>\<open>chain[:,i] = 10**chain[:,i]\<close>, in place.\<close>

definition pow10_column :: "arr2 \<Rightarrow> nat \<Rightarrow> py_error + arr2" where
  "pow10_column a i =
     (if \<not> i < ncols a then Inl IndexError
      else Inr (a\<lparr>data2 := map (\<lambda>row. row[i := 10 powr (row ! i)]) (data2 a)\<rparr>))"

text \<open>
  The loop \<^verbatim>\<open>for i, idx in enumerate(paridxs)\<close> that undoes the logarithm; \<open>r\<close> is the
  address the local name \<^verbatim>\<open>chain\<close> refers to.
\<close>

fun undo_log :: "par list \<Rightarrow> nat \<Rightarrow> nat \<Rightarrow> int list \<Rightarrow> store \<Rightarrow> py_error + store" where
  "undo_log params r i [] s = Inr s"
| "undo_log params r i (idx # idxs) s =
     (case py_index params (idx - 1) of
        Inl err \<Rightarrow> Inl err
      | Inr p \<Rightarrow>
          if par_log p then
            (case s ! r of
               A2 a \<Rightarrow>
                 (case pow10_column a i of
                    Inl err \<Rightarrow> Inl err
                  | Inr a' \<Rightarrow> undo_log params r (Suc i) idxs (s[r := A2 a']))
             | A3 _ \<Rightarrow> Inl TypeError)
          else undo_log params r (Suc i) idxs s)"

text \<open>The labels \<^verbatim>\<open>"%i %s %s" % (idx, name, unit or "0")\<close>, one per entry of \<^verbatim>\<open>paridxs\<close>.\<close>

fun header_labels :: "par list \<Rightarrow> int list \<Rightarrow> py_error + string list" where
  "header_labels params [] = Inr []"
| "header_labels params (idx # idxs) =
     (case py_index params (idx - 1) of
        Inl err \<Rightarrow> Inl err
      | Inr p \<Rightarrow>
          (case header_labels params idxs of
             Inl err \<Rightarrow> Inl err
           | Inr hdr \<Rightarrow>
               Inr ((fmt_i idx @ '' '' @ par_name p @ '' '' @
                     (if par_unit p = [] then ''0'' else par_unit p)) # hdr)))"

definition chain_file_head :: "string list" where
  "chain_file_head =
     [''! Markov chain file generated by xspec '' @ [CHR 0x22] @ ''chain'' @ [CHR 0x22] @ '' command.'',
      ''!    Do not modify, else file may not reload properly.'']"

text \<open>
  \<open>writeXSpecChain fmt_g chain lnprob params paridxs s\<close>: \<open>chain\<close> and \<open>lnprob\<close> are the
  addresses of the caller's buffers in the store \<open>s\<close>; \<open>fmt_g\<close> is the format
  \<^verbatim>\<open>%g\<close> of a float.  The result is the store afterwards, the lines written to the
  file so far, and the exception that stopped the writing, if any.
\<close>

definition writeXSpecChain ::
  "(real \<Rightarrow> string) \<Rightarrow> nat \<Rightarrow> nat \<Rightarrow> par list \<Rightarrow> int list \<Rightarrow> store \<Rightarrow>
     store \<times> string list \<times> py_error option" where
  "writeXSpecChain fmt_g chain lnprob params paridxs s =
     (if \<not> (chain < length s \<and> lnprob < length s) then (s, [], Some TypeError)
      else case (s ! chain, s ! lnprob) of
        (A3 c, A2 l) \<Rightarrow>
          (let len = shape0 c * shape1 c;
               width = shape2 c;
               written = chain_file_head @
                 [''!Length: '' @ fmt_i (int len) @ ''  Width: '' @ fmt_i (int width + 1)]
           in case reshape_lnprob l len of
                Inl err \<Rightarrow> (s, written, Some err)
              | Inr col \<Rightarrow>
             (case column_stack (reshape_chain c) col of
                Inl err \<Rightarrow> (s, written, Some err)
              | Inr stacked \<Rightarrow>
             (let chain' = length s; s1 = s @ [A2 stacked]
              in case undo_log params chain' 0 paridxs s1 of
                   Inl err \<Rightarrow> (s1, written, Some err)
                 | Inr s2 \<Rightarrow>
                (case header_labels params paridxs of
                   Inl err \<Rightarrow> (s2, written, Some err)
                 | Inr hdr \<Rightarrow>
                (case s2 ! chain' of
                   A2 out \<Rightarrow>
                     (s2,
                      written @ [''!'' @ join '' '' (hdr @ [''Chi-Squared''])] @
                        map (\<lambda>line. join [CHR 0x09] (map fmt_g line)) (data2 out),
                      None)
                 | A3 _ \<Rightarrow> (s2, written, Some TypeError))))))
      | _ \<Rightarrow> (s, [], Some TypeError))"

section \<open>doMCMC\<close>

text \<open>
  The module \<^verbatim>\<open>xspec_pool\<close>, the sampler of \<^verbatim>\<open>emcee\<close>, the random generator, the
  clock and the files read are outside the program; a run is a function of what they
  answer.  \<open>xspec_pool\<close> gives the pool built for a list of systems, with the three
  attributes the driver reads.  \<open>run_mcmc p0 n\<close> is the burn-in: the final positions
  and the generator state.  \<open>sample pos state i\<close> is the \<open>i\<close>-th item (positions and
  log-probabilities) the generator \<^verbatim>\<open>sampler.sample(pos, rstate0=state, ...)\<close>
  yields.  \<open>interrupt_at = Some (i, ph)\<close> says that \<^verbatim>\<open>KeyboardInterrupt\<close> arrives in
  pass \<open>i\<close> of the loop (after \<open>i\<close> completed passes), at the point \<open>ph\<close> of the pass.
  \<open>time_time k\<close> is what the \<open>k\<close>-th call of \<^verbatim>\<open>time.time()\<close> returns.
  \<open>load_npz\<close> is \<^verbatim>\<open>N.load\<close>: the arrays \<^verbatim>\<open>chain\<close> and \<^verbatim>\<open>lnprobability\<close> of a
  file, if it exists.  Failures of the pool, of the sampler and of writing a file are
  not modelled, nor is an interrupt outside the sampling loop or in the middle of
  writing a checkpoint.
\<close>

text \<open>
  Python delivers \<^verbatim>\<open>KeyboardInterrupt\<close> between two statements: while the loop waits
  for the next item of the generator, after the assignment to \<^verbatim>\<open>chain\<close>, after the
  assignment to \<^verbatim>\<open>lnprob\<close>, or after the cursor has been incremented.
\<close>

datatype phase = Waiting | AfterChain | AfterLnprob | AfterIndex

record pool =
  parameters :: "par list"
  parlist :: "par list"
  paridxs :: "int list"

record env =
  xspec_pool :: "string list \<Rightarrow> pool"
  random_normal :: "real \<Rightarrow> real \<Rightarrow> nat \<Rightarrow> real"
  loadtxt :: "string \<Rightarrow> real list list"
  load_npz :: "string \<Rightarrow> (arr3 \<times> arr2) option"
  run_mcmc :: "real list list \<Rightarrow> int \<Rightarrow> real list list \<times> nat"
  sample :: "real list list \<Rightarrow> nat option \<Rightarrow> nat \<Rightarrow> real list list \<times> real list"
  interrupt_at :: "(nat \<times> phase) option"
  time_time :: "nat \<Rightarrow> real"
  fmt_g :: "real \<Rightarrow> string"

text \<open>The keyword arguments of \<^verbatim>\<open>doMCMC\<close> the driver itself reads.\<close>

record config =
  nwalkers :: int
  nburn :: int
  niters :: int
  systems :: "string list"
  outchain :: string
  outnpz :: string
  continuerun :: bool
  autosave :: bool
  initialparameters :: "string option"

text \<open>What the initialisation (up to the line before the loop) leaves in the locals.\<close>

record init =
  i_pool :: pool
  i_pos :: "real list list"
  i_state :: "nat option"
  i_chain :: arr3
  i_lnprob :: arr2
  i_start :: nat

definition initial_positions :: "config \<Rightarrow> env \<Rightarrow> pool \<Rightarrow> real list list" where
  "initial_positions c e pl =
     (case initialparameters c of
        None \<Rightarrow> getInitialParameters (random_normal e) (parameters pl) (nwalkers c)
      | Some f \<Rightarrow>
          if f = [] then getInitialParameters (random_normal e) (parameters pl) (nwalkers c)
          else loadtxt e f)"

text \<open>
  The branch \<^verbatim>\<open>continuerun\<close> of the initialisation: load the old chain, take the
  cursor and the positions from it, and append blank entries.
\<close>

definition continue_from :: "config \<Rightarrow> env \<Rightarrow> nat \<Rightarrow> py_error + (real list list \<times> arr3 \<times> arr2 \<times> nat)" where
  "continue_from c e ndims =
     (case load_npz e (outnpz c) of
        None \<Rightarrow> Inl IOError
      | Some (chain, lnprob) \<Rightarrow>
          (let start = shape1 chain in
           case last_iteration chain of
             Inl err \<Rightarrow> Inl err
           | Inr pos \<Rightarrow>
          (case zeros3 (nwalkers c) (niters c - int start) (int ndims) of
             Inl err \<Rightarrow> Inl err
           | Inr blankchain \<Rightarrow>
          (case zeros2 (nwalkers c) (niters c - int start) of
             Inl err \<Rightarrow> Inl err
           | Inr blankprob \<Rightarrow>
          (case concatenate3 chain blankchain of
             Inl err \<Rightarrow> Inl err
           | Inr chain' \<Rightarrow>
          (case concatenate2 lnprob blankprob of
             Inl err \<Rightarrow> Inl err
           | Inr lnprob' \<Rightarrow> Inr (pos, chain', lnprob', start)))))))"

definition doMCMC_init :: "config \<Rightarrow> env \<Rightarrow> event list \<times> (py_error + init)" where
  "doMCMC_init c e =
     (let pl = xspec_pool e (expandSystems (systems c));
          p0 = initial_positions c e pl
      in case p0 of
           [] \<Rightarrow> ([], Inl IndexError)
         | row # _ \<Rightarrow>
             (let ndims = length row;
                  (tr, state, pos) =
                    (if \<not> continuerun c \<and> nburn c > 0
                     then ([BurnIn (nburn c)],
                           Some (snd (run_mcmc e p0 (nburn c))), fst (run_mcmc e p0 (nburn c)))
                     else ([], None, p0))
              in if \<not> continuerun c then
                   (case zeros3 (nwalkers c) (niters c) (int ndims) of
                      Inl err \<Rightarrow> (tr, Inl err)
                    | Inr chain \<Rightarrow>
                   (case zeros2 (nwalkers c) (niters c) of
                      Inl err \<Rightarrow> (tr, Inl err)
                    | Inr lnprob \<Rightarrow>
                        (tr, Inr \<lparr>i_pool = pl, i_pos = pos, i_state = state,
                                  i_chain = chain, i_lnprob = lnprob, i_start = 0\<rparr>)))
                 else
                   (case continue_from c e ndims of
                      Inl err \<Rightarrow> (tr, Inl err)
                    | Inr (pos', chain, lnprob, start) \<Rightarrow>
                        (tr, Inr \<lparr>i_pool = pl, i_pos = pos', i_state = state,
                                  i_chain = chain, i_lnprob = lnprob, i_start = start\<rparr>))))"

text \<open>The locals of the loop, the count of clock readings and the effects so far.\<close>

record loop_state =
  st_chain :: arr3
  st_lnprob :: arr2
  st_index :: nat
  st_lastsave :: real
  st_ticks :: nat
  st_trace :: "event list"

text \<open>
  One pass through the body of the \<^verbatim>\<open>for\<close> loop, for the item \<open>(p, l)\<close>.  \<open>stop\<close> is
  the point at which the interrupt arrives in this pass, if it does; the result says
  whether the pass was interrupted, and the locals it left.
\<close>

definition loop_body ::
  "config \<Rightarrow> env \<Rightarrow> real list list \<times> real list \<Rightarrow> phase option \<Rightarrow> loop_state \<Rightarrow>
     py_error + (bool \<times> loop_state)" where
  "loop_body c e pl stop st =
     (case set_iteration3 (st_chain st) (st_index st) (fst pl) of
        Inl err \<Rightarrow> Inl err
      | Inr ch \<Rightarrow>
     if stop = Some AfterChain then Inr (True, st\<lparr>st_chain := ch\<rparr>) else
     (case set_iteration2 (st_lnprob st) (st_index st) (snd pl) of
        Inl err \<Rightarrow> Inl err
      | Inr lp \<Rightarrow>
     if stop = Some AfterLnprob then Inr (True, st\<lparr>st_chain := ch, st_lnprob := lp\<rparr>) else
          (let st1 = st\<lparr>st_chain := ch, st_lnprob := lp, st_index := st_index st + 1,
                        st_trace := st_trace st @ [Step (st_index st)]\<rparr>
           in if stop = Some AfterIndex then Inr (True, st1)
              else if autosave c then
                (let now = time_time e (st_ticks st1);
                     st2 = st1\<lparr>st_ticks := st_ticks st1 + 1\<rparr>
                 in if now - st_lastsave st2 > 60 * 10 then
                      Inr (False,
                           st2\<lparr>st_lastsave := time_time e (st_ticks st2),
                               st_ticks := st_ticks st2 + 1,
                               st_trace := st_trace st2 @
                                 [writeNpz (outnpz c) ch lp (int (st_index st2))]\<rparr>)
                    else Inr (False, st2))
              else Inr (False, st1))))"

text \<open>The point of pass \<open>i\<close> at which the interrupt arrives, if it arrives in that pass.\<close>

definition interrupt_phase :: "env \<Rightarrow> nat \<Rightarrow> phase option" where
  "interrupt_phase e i =
     (case interrupt_at e of
        None \<Rightarrow> None
      | Some (j, ph) \<Rightarrow> if j = i then Some ph else None)"

datatype loop_exit = Exhausted | Interrupted | Raised py_error

text \<open>
  The \<^verbatim>\<open>for\<close> loop over the generator: \<open>i\<close> items taken so far, \<open>n\<close> still to come.
\<close>

fun sample_loop ::
  "config \<Rightarrow> env \<Rightarrow> (nat \<Rightarrow> real list list \<times> real list) \<Rightarrow> nat \<Rightarrow> nat \<Rightarrow> loop_state \<Rightarrow>
     loop_exit \<times> loop_state" where
  "sample_loop c e gen i 0 st = (Exhausted, st)"
| "sample_loop c e gen i (Suc n) st =
     (if interrupt_phase e i = Some Waiting then (Interrupted, st)
      else case loop_body c e (gen i) (interrupt_phase e i) st of
             Inl err \<Rightarrow> (Raised err, st)
           | Inr (True, st') \<Rightarrow> (Interrupted, st')
           | Inr (False, st') \<Rightarrow> sample_loop c e gen (Suc i) n st')"

text \<open>How the run ended, and the buffers and the cursor it ended with.\<close>

record run_result =
  r_interrupted :: bool
  r_chain :: arr3
  r_lnprob :: arr2
  r_index :: nat

text \<open>
  The whole of \<^verbatim>\<open>doMCMC\<close>: the effects in order, and either the exception that ended
  the run or its result.  For the export the two buffers are the objects at the
  addresses 0 and 1 of a store; the final checkpoint is written from what these
  addresses hold after the exporter has returned.
\<close>

definition doMCMC :: "config \<Rightarrow> env \<Rightarrow> event list \<times> (py_error + run_result)" where
  "doMCMC c e =
     (case doMCMC_init c e of
        (tr, Inl err) \<Rightarrow> (tr, Inl err)
      | (tr, Inr ini) \<Rightarrow>
          (let st0 = \<lparr>st_chain = i_chain ini, st_lnprob = i_lnprob ini, st_index = i_start ini,
                      st_lastsave = time_time e 0, st_ticks = 1, st_trace = tr\<rparr>;
               (ex, st) = sample_loop c e (sample e (i_pos ini) (i_state ini)) 0
                            (nat (niters c - int (i_start ini))) st0
           in case ex of
                Raised err \<Rightarrow> (st_trace st, Inl err)
              | Interrupted \<Rightarrow>
                  (st_trace st @
                     [writeNpz (outnpz c) (st_chain st) (st_lnprob st) (int (st_index st))],
                   Inr \<lparr>r_interrupted = True, r_chain = st_chain st,
                        r_lnprob = st_lnprob st, r_index = st_index st\<rparr>)
              | Exhausted \<Rightarrow>
                  (case writeXSpecChain (fmt_g e) 0 1 (parlist (i_pool ini))
                          (paridxs (i_pool ini)) [A3 (st_chain st), A2 (st_lnprob st)] of
                     (s', written, Some err) \<Rightarrow>
                       (st_trace st @ [WroteChain (outchain c) written], Inl err)
                   | (s', written, None) \<Rightarrow>
                       (case (s' ! 0, s' ! 1) of
                          (A3 chain, A2 lnprob) \<Rightarrow>
                            (st_trace st @
                               [WroteChain (outchain c) written,
                                writeNpz (outnpz c) chain lnprob (int (st_index st))],
                             Inr \<lparr>r_interrupted = False, r_chain = chain,
                                  r_lnprob = lnprob, r_index = st_index st\<rparr>)
                        | _ \<Rightarrow> (st_trace st @ [WroteChain (outchain c) written],
                                Inl TypeError)))))"

section \<open>What the properties assume of the inputs\<close>

text \<open>An event that writes the text chain file.\<close>

fun is_export :: "event \<Rightarrow> bool" where
  "is_export (WroteChain f ls) = True"
| "is_export ev = False"

text \<open>An event that writes a checkpoint.\<close>

fun is_checkpoint :: "event \<Rightarrow> bool" where
  "is_checkpoint (WroteNpz f c l) = True"
| "is_checkpoint ev = False"

text \<open>
  A chain buffer and a log-probability buffer that belong together: both are arrays,
  with the same walkers and the same iterations.
\<close>

definition buffers_ok :: "arr3 \<Rightarrow> arr2 \<Rightarrow> bool" where
  "buffers_ok ch lp = (wf3 ch \<and> wf2 lp \<and> nrows lp = shape0 ch \<and> ncols lp = shape1 ch)"

text \<open>
  The first \<open>n\<close> items of a generator have the shapes the ensemble sampler yields for
  \<open>nw\<close> walkers and \<open>nd\<close> parameters: positions \<open>(nw, nd)\<close>, log-probabilities \<open>(nw)\<close>.
\<close>

definition sampler_ok :: "(nat \<Rightarrow> real list list \<times> real list) \<Rightarrow> nat \<Rightarrow> nat \<Rightarrow> nat \<Rightarrow> bool" where
  "sampler_ok gen n nw nd =
     list_all (\<lambda>i. length (fst (gen i)) = nw \<and> list_all (\<lambda>v. length v = nd) (fst (gen i)) \<and>
                    length (snd (gen i)) = nw) [0..<n]"

text \<open>
  The pool lists one index per column of the chain, each the 1-based position of a
  parameter in its parameter list.
\<close>

definition pool_ok :: "pool \<Rightarrow> nat \<Rightarrow> bool" where
  "pool_ok pl nd =
     (length (paridxs pl) = nd \<and>
      list_all (\<lambda>idx. 1 \<le> idx \<and> idx \<le> int (length (parlist pl))) (paridxs pl))"

text \<open>
  When the interrupt arrives at a given point of a given pass: how many passes have
  moved the cursor on, and how many items the loop has taken from the generator.
\<close>

definition steps_done :: "nat \<times> phase \<Rightarrow> nat" where
  "steps_done ip = (if snd ip = AfterIndex then Suc (fst ip) else fst ip)"

definition items_taken :: "nat \<times> phase \<Rightarrow> nat" where
  "items_taken ip = (if snd ip = Waiting then fst ip else Suc (fst ip))"

text \<open>
  The checkpoint file, when there is one, holds a chain and log-probabilities that
  belong together (it was written by \<^verbatim>\<open>writeNpz\<close>).
\<close>

definition checkpoint_ok :: "config \<Rightarrow> env \<Rightarrow> bool" where
  "checkpoint_ok c e =
     (case load_npz e (outnpz c) of None \<Rightarrow> True | Some (ch, lp) \<Rightarrow> buffers_ok ch lp)"

text \<open>
  What one or more passes of the loop may change: the buffers keep their shapes and
  still belong together, the cursor moves on by \<open>n\<close>, everything before the old cursor
  stays as it was, and the effects added do not write the text chain.
\<close>

definition advances :: "nat \<Rightarrow> loop_state \<Rightarrow> loop_state \<Rightarrow> bool" where
  "advances n st st' =
     (buffers_ok (st_chain st') (st_lnprob st') \<and>
      shape0 (st_chain st') = shape0 (st_chain st) \<and>
      shape1 (st_chain st') = shape1 (st_chain st) \<and>
      shape2 (st_chain st') = shape2 (st_chain st) \<and>
      st_index st' = st_index st + n \<and>
      (\<forall>k \<le> st_index st. map (take k) (data3 (st_chain st')) = map (take k) (data3 (st_chain st)) \<and>
                           map (take k) (data2 (st_lnprob st')) = map (take k) (data2 (st_lnprob st))) \<and>
      (\<exists>evs. st_trace st' = st_trace st @ evs \<and> list_all (\<lambda>ev. \<not> is_export ev) evs))"

section \<open>The exported table, column by column\<close>

text \<open>
  What the loop undoing the logarithm does to one row of the table: \<open>flags\<close> are the
  \<^verbatim>\<open>log\<close> flags of the parameters listed from column \<open>i\<close> on, and a flagged column
  is replaced by ten to its power.
\<close>

fun undo_row :: "bool list \<Rightarrow> nat \<Rightarrow> real list \<Rightarrow> real list" where
  "undo_row [] i row = row"
| "undo_row (f # fs) i row = undo_row fs (Suc i) (if f then row[i := 10 powr (row ! i)] else row)"

text \<open>The parameter an entry of \<^verbatim>\<open>paridxs\<close> names, and the label of its column.\<close>

definition par_of :: "par list \<Rightarrow> int \<Rightarrow> par" where
  "par_of params idx = params ! nat (idx - 1)"

definition label_of :: "par list \<Rightarrow> int \<Rightarrow> string" where
  "label_of params idx =
     fmt_i idx @ '' '' @ par_name (par_of params idx) @ '' '' @
     (if par_unit (par_of params idx) = [] then ''0'' else par_unit (par_of params idx))"

section \<open>Two sentences of the specification, read literally\<close>

text \<open>
  The specification reads an entry \<^verbatim>\<open>NAME*K\<close> as \<open>K\<close> copies of \<open>NAME\<close>.  Read on the
  whole entry: everything before the first star is the name (letters and digits),
  everything after it is the count (decimal digits).
\<close>

definition spec_name_times_k :: "string \<Rightarrow> (string \<times> nat) option" where
  "spec_name_times_k s =
     (let name = takeWhile (\<lambda>c. c \<noteq> CHR ''*'') s; rest = dropWhile (\<lambda>c. c \<noteq> CHR ''*'') s in
      case rest of
        [] \<Rightarrow> None
      | _ # ds \<Rightarrow>
          if name \<noteq> [] \<and> list_all is_alnum name \<and> ds \<noteq> [] \<and> list_all is_digit ds
          then Some (name, int_of_digits ds) else None)"

definition spec_expand :: "string list \<Rightarrow> string list" where
  "spec_expand entries =
     concat (map (\<lambda>s. case spec_name_times_k s of
                         Some (name, k) \<Rightarrow> replicate k name
                       | None \<Rightarrow> [s]) entries)"

text \<open>
  The specification has a completed run write the final checkpoint first and the text
  chain after it: the text chain is written, a checkpoint is written before it, and
  no checkpoint is written after it.
\<close>

definition spec_checkpoint_then_export :: "event list \<Rightarrow> bool" where
  "spec_checkpoint_then_export tr =
     (case dropWhile (\<lambda>ev. \<not> is_export ev) tr of
        [] \<Rightarrow> False
      | ex # later \<Rightarrow>
          list_ex is_checkpoint (takeWhile (\<lambda>ev. \<not> is_export ev) tr) \<and>
          \<not> list_ex is_checkpoint later)"

section \<open>Concrete inputs\<close>

text \<open>A free parameter, and a parameter sampled in log space with no unit.\<close>

definition example_par :: par where
  "example_par = \<lparr>par_name = ''kT'', par_unit = ''keV'', val_init = 1, val_delta = 5,
     val_sigma = 2, val_hardmin = 0, val_hardmax = 10, par_log = False\<rparr>"

definition example_norm :: par where
  "example_norm = \<lparr>par_name = ''norm'', par_unit = [], val_init = 0, val_delta = 1,
     val_sigma = 0, val_hardmin = -5, val_hardmax = 5, par_log = True\<rparr>"

text \<open>
  Buffers of two walkers and one parameter with room for three iterations, two of them
  filled.
\<close>

definition example_chain :: arr3 where
  "example_chain = \<lparr>shape0 = 2, shape1 = 3, shape2 = 1,
     data3 = [[[1], [2], [0]], [[3], [4], [0]]]\<rparr>"

definition example_lnprob :: arr2 where
  "example_lnprob = \<lparr>nrows = 2, ncols = 3, data2 = [[-1, -2, 0], [-3, -4, 0]]\<rparr>"

text \<open>
  Completed buffers of two walkers, two iterations and two free parameters, for the
  exporter.
\<close>

definition export_chain :: arr3 where
  "export_chain = \<lparr>shape0 = 2, shape1 = 2, shape2 = 2,
     data3 = [[[1, 2], [3, 0]], [[4, 1], [5, 3]]]\<rparr>"

definition export_lnprob :: arr2 where
  "export_lnprob = \<lparr>nrows = 2, ncols = 2, data2 = [[-1, -2], [-3, -4]]\<rparr>"

text \<open>
  A pool with one free parameter, and an environment around it: the generator draws the
  centre it is asked for, the sampler moves every walker by one plus the number of the
  step, no checkpoint file exists, no interrupt arrives and the clock stands still.
  The stand-in for the format \<^verbatim>\<open>%g\<close> prints the integer part, which is what
  \<^verbatim>\<open>%g\<close> prints for the small whole numbers of these runs.
\<close>

definition example_pool :: pool where
  "example_pool = \<lparr>parameters = [example_par], parlist = [example_par], paridxs = [1]\<rparr>"

definition example_env :: env where
  "example_env = \<lparr>xspec_pool = (\<lambda>s. example_pool),
     random_normal = (\<lambda>mu w k. mu),
     loadtxt = (\<lambda>f. []),
     load_npz = (\<lambda>f. None),
     run_mcmc = (\<lambda>p n. (p, 0)),
     sample = (\<lambda>pos st i. (map (map (\<lambda>x. x + 1 + real i)) pos, map (\<lambda>v. - real i) pos)),
     interrupt_at = None,
     time_time = (\<lambda>k. 0),
     fmt_g = (\<lambda>x. fmt_i \<lfloor>x\<rfloor>)\<rparr>"

text \<open>Two walkers, no burn-in, two iterations.\<close>

definition example_config :: config where
  "example_config = \<lparr>nwalkers = 2, nburn = 0, niters = 2, systems = [''localhost''],
     outchain = ''out.dat'', outnpz = ''out.npz'', continuerun = False, autosave = True,
     initialparameters = None\<rparr>"

text \<open>
  The checkpoint an interrupted run of two walkers leaves after one iteration, and the
  one it leaves when it is interrupted before the first iteration is done.
\<close>

definition example_checkpoint :: "arr3 \<times> arr2" where
  "example_checkpoint =
     (\<lparr>shape0 = 2, shape1 = 1, shape2 = 1, data3 = [[[5]], [[6]]]\<rparr>,
      \<lparr>nrows = 2, ncols = 1, data2 = [[-1], [-2]]\<rparr>)"

definition empty_checkpoint :: "arr3 \<times> arr2" where
  "empty_checkpoint =
     (\<lparr>shape0 = 2, shape1 = 0, shape2 = 1, data3 = [[], []]\<rparr>,
      \<lparr>nrows = 2, ncols = 0, data2 = [[], []]\<rparr>)"

section \<open>Properties of the array operations and of writeNpz\<close>

lemma wf3_rowD: "wf3 a \<Longrightarrow> w \<in> set (data3 a) \<Longrightarrow> length w = shape1 a"
  by (simp add: wf3_def list_all_iff)

lemma wf2_rowD: "wf2 a \<Longrightarrow> w \<in> set (data2 a) \<Longrightarrow> length w = ncols a"
  by (simp add: wf2_def list_all_iff)

lemma map_take_all: "\<forall>w \<in> set xs. length w \<le> n \<Longrightarrow> map (take n) xs = xs"
  by (induction xs) simp_all

lemma wf3_slice: "wf3 a \<Longrightarrow> 0 \<le> m \<Longrightarrow> m \<le> int (shape1 a) \<Longrightarrow> wf3 (slice3 a m)"
  by (auto simp: wf3_def slice3_def slice_stop_def list_all_iff dest: in_set_takeD)

lemma wf2_slice: "wf2 a \<Longrightarrow> 0 \<le> m \<Longrightarrow> m \<le> int (ncols a) \<Longrightarrow> wf2 (slice2 a m)"
  by (auto simp: wf2_def slice2_def slice_stop_def list_all_iff)

lemma writeNpz_prefix:
  assumes "buffers_ok chain lnprob" "shape1 chain = cap" "0 \<le> maxindex" "maxindex \<le> int cap"
  shows "\<exists>c l. writeNpz filename chain lnprob maxindex = WroteNpz filename c l \<and>
     wf3 c \<and> shape0 c = shape0 chain \<and> shape1 c = nat maxindex \<and> shape2 c = shape2 chain \<and>
     wf2 l \<and> nrows l = shape0 chain \<and> ncols l = nat maxindex \<and>
     data3 c = map (take (nat maxindex)) (data3 chain) \<and>
     data2 l = map (take (nat maxindex)) (data2 lnprob)"
proof (cases "maxindex < int (shape1 chain)")
  case True
  have w: "wf3 chain" "wf2 lnprob" "nrows lnprob = shape0 chain" "ncols lnprob = shape1 chain"
    using assms(1) by (simp_all add: buffers_ok_def)
  have s: "slice_stop (shape1 chain) maxindex = nat maxindex"
    using True assms(3) by (simp add: slice_stop_def)
  have "writeNpz filename chain lnprob maxindex
          = WroteNpz filename (slice3 chain maxindex) (slice2 lnprob maxindex)"
    using True by (simp add: writeNpz_def)
  moreover have "wf3 (slice3 chain maxindex)" "wf2 (slice2 lnprob maxindex)"
    using w True assms(3) by (simp_all add: wf3_slice wf2_slice)
  ultimately show ?thesis
    using w s by (simp add: slice3_def slice2_def)
next
  case False
  have w: "wf3 chain" "wf2 lnprob" "nrows lnprob = shape0 chain" "ncols lnprob = shape1 chain"
    using assms(1) by (simp_all add: buffers_ok_def)
  from False assms have m: "nat maxindex = shape1 chain" by simp
  have "map (take (nat maxindex)) (data3 chain) = data3 chain"
    using wf3_rowD[OF w(1)] m by (intro map_take_all) simp
  moreover have "map (take (nat maxindex)) (data2 lnprob) = data2 lnprob"
    using wf2_rowD[OF w(2)] m w(4) by (intro map_take_all) simp
  moreover have "writeNpz filename chain lnprob maxindex = WroteNpz filename chain lnprob"
    using False by (simp add: writeNpz_def)
  ultimately show ?thesis using w m by simp
qed

text \<open>
  C2.  Saving buffers of capacity \<open>cap\<close> with the cursor at \<open>maxindex\<close> (between 0 and
  the capacity) writes arrays of the shapes \<open>(nwalkers, maxindex, ndims)\<close> and
  \<open>(nwalkers, maxindex)\<close> holding, walker by walker, the first \<open>maxindex\<close> iterations
  of the buffers and nothing after them.
\<close>

theorem writeNpz_saves_filled_prefix:
  assumes "buffers_ok chain lnprob" "shape1 chain = cap" "0 \<le> maxindex" "maxindex \<le> int cap"
  shows "\<exists>c l. writeNpz filename chain lnprob maxindex = WroteNpz filename c l \<and>
     wf3 c \<and> shape0 c = shape0 chain \<and> shape1 c = nat maxindex \<and> shape2 c = shape2 chain \<and>
     wf2 l \<and> nrows l = shape0 chain \<and> ncols l = nat maxindex \<and>
     data3 c = map (take (nat maxindex)) (data3 chain) \<and>
     data2 l = map (take (nat maxindex)) (data2 lnprob)"
  using assms by (rule writeNpz_prefix)

theorem writeNpz_saves_filled_prefix_witness:
  "buffers_ok example_chain example_lnprob \<and> shape1 example_chain = 3 \<and>
   (\<exists>c l. writeNpz ''out.npz'' example_chain example_lnprob 2 = WroteNpz ''out.npz'' c l \<and>
      shape0 c = 2 \<and> shape1 c = 2 \<and> shape2 c = 1 \<and> nrows l = 2 \<and> ncols l = 2 \<and>
      data3 c = [[[1], [2]], [[3], [4]]] \<and> data2 l = [[-1, -2], [-3, -4]])"
proof -
  have h: "buffers_ok example_chain example_lnprob" "shape1 example_chain = 3"
    "(0::int) \<le> 2" "(2::int) \<le> int 3"
    by (simp_all add: buffers_ok_def wf3_def wf2_def example_chain_def example_lnprob_def)
  from writeNpz_saves_filled_prefix[OF h, of "''out.npz''"]
  obtain c l where "writeNpz ''out.npz'' example_chain example_lnprob 2 = WroteNpz ''out.npz'' c l"
    "shape0 c = shape0 example_chain" "shape1 c = nat 2" "shape2 c = shape2 example_chain"
    "nrows l = shape0 example_chain" "ncols l = nat 2"
    "data3 c = map (take (nat 2)) (data3 example_chain)"
    "data2 l = map (take (nat 2)) (data2 example_lnprob)"
    by blast
  then have "writeNpz ''out.npz'' example_chain example_lnprob 2 = WroteNpz ''out.npz'' c l \<and>
      shape0 c = 2 \<and> shape1 c = 2 \<and> shape2 c = 1 \<and> nrows l = 2 \<and> ncols l = 2 \<and>
      data3 c = [[[1], [2]], [[3], [4]]] \<and> data2 l = [[-1, -2], [-3, -4]]"
    by (simp add: example_chain_def example_lnprob_def numeral_2_eq_2)
  with h show ?thesis by blast
qed


section \<open>Properties of getInitialParameters\<close>

lemma walker_values_length: "length (walker_values nrm ps k) = length ps"
  by (induction ps arbitrary: k) (simp_all add: Let_def)

lemma walkers_length: "length (walkers nrm ps n k) = n"
  by (induction n arbitrary: k) simp_all

lemma np_clip_range: "lo \<le> hi \<Longrightarrow> lo \<le> np_clip v lo hi \<and> np_clip v lo hi \<le> hi"
  by (simp add: np_clip_def)

lemma np_clip_cases:
  "lo \<le> hi \<Longrightarrow> np_clip v lo hi = (if v < lo then lo else if hi < v then hi else v)"
  by (simp add: np_clip_def)

lemma walker_values_nth:
  "j < length ps \<Longrightarrow> walker_values nrm ps k ! j =
     np_clip (nrm (val_init (ps ! j))
       (if 0 < val_sigma (ps ! j) * 0.1 \<and> val_sigma (ps ! j) * 0.1 < val_delta (ps ! j)
        then val_sigma (ps ! j) * 0.1 else val_delta (ps ! j)) (k + j))
       (val_hardmin (ps ! j)) (val_hardmax (ps ! j))"
proof (induction ps arbitrary: k j)
  case Nil
  then show ?case by simp
next
  case (Cons p ps)
  show ?case
  proof (cases j)
    case 0
    then show ?thesis by (simp add: Let_def)
  next
    case (Suc j')
    with Cons.prems have "j' < length ps" by simp
    from Cons.IH[OF this, of "Suc k"] Suc show ?thesis by (simp add: Let_def)
  qed
qed

lemma walkers_nth:
  "w < n \<Longrightarrow> walkers nrm ps n k ! w = walker_values nrm ps (k + w * length ps)"
proof (induction n arbitrary: k w)
  case 0
  then show ?case by simp
next
  case (Suc n)
  show ?case
  proof (cases w)
    case 0
    then show ?thesis by simp
  next
    case (Suc w')
    with Suc.prems have "w' < n" by simp
    from Suc.IH[OF this, of "k + length ps"] Suc show ?thesis by (simp add: algebra_simps)
  qed
qed

text \<open>
  C8.  Whatever the generator draws, the population has one vector per walker and one
  value per parameter, and every value lies within the hard range of its parameter
  (a range with \<open>val_hardmin \<le> val_hardmax\<close>).  A value is the draw itself when the
  draw is in range, the lower bound when the draw is below it and the upper bound when
  the draw is above it: the value of walker \<open>w\<close> and parameter \<open>j\<close> comes from the single
  draw number \<open>w * length ps + j\<close>, so nothing is drawn again.  The builder has no
  error result.
\<close>

theorem initial_parameters_within_bounds:
  assumes "\<forall>p \<in> set ps. val_hardmin p \<le> val_hardmax p"
  shows "length (getInitialParameters nrm ps nw) = nat nw \<and>
    (\<forall>w < nat nw. length (getInitialParameters nrm ps nw ! w) = length ps \<and>
       (\<forall>j < length ps.
          val_hardmin (ps ! j) \<le> getInitialParameters nrm ps nw ! w ! j \<and>
          getInitialParameters nrm ps nw ! w ! j \<le> val_hardmax (ps ! j) \<and>
          (\<exists>width. getInitialParameters nrm ps nw ! w ! j =
             (let d = nrm (val_init (ps ! j)) width (w * length ps + j) in
              if d < val_hardmin (ps ! j) then val_hardmin (ps ! j)
              else if val_hardmax (ps ! j) < d then val_hardmax (ps ! j) else d))))"
proof -
  have len: "length (getInitialParameters nrm ps nw) = nat nw"
    by (simp add: getInitialParameters_def walkers_length)
  have "val_hardmin (ps ! j) \<le> getInitialParameters nrm ps nw ! w ! j \<and>
        getInitialParameters nrm ps nw ! w ! j \<le> val_hardmax (ps ! j) \<and>
        (\<exists>width. getInitialParameters nrm ps nw ! w ! j =
             (let d = nrm (val_init (ps ! j)) width (w * length ps + j) in
              if d < val_hardmin (ps ! j) then val_hardmin (ps ! j)
              else if val_hardmax (ps ! j) < d then val_hardmax (ps ! j) else d))"
    if w: "w < nat nw" and j: "j < length ps" for w j
  proof -
    have r: "val_hardmin (ps ! j) \<le> val_hardmax (ps ! j)"
      using assms j by simp
    have v: "getInitialParameters nrm ps nw ! w ! j =
      np_clip (nrm (val_init (ps ! j))
       (if 0 < val_sigma (ps ! j) * 0.1 \<and> val_sigma (ps ! j) * 0.1 < val_delta (ps ! j)
        then val_sigma (ps ! j) * 0.1 else val_delta (ps ! j)) (w * length ps + j))
       (val_hardmin (ps ! j)) (val_hardmax (ps ! j))"
      using w j by (simp add: getInitialParameters_def walkers_nth walker_values_nth)
    have "\<exists>width. getInitialParameters nrm ps nw ! w ! j =
             (let d = nrm (val_init (ps ! j)) width (w * length ps + j) in
              if d < val_hardmin (ps ! j) then val_hardmin (ps ! j)
              else if val_hardmax (ps ! j) < d then val_hardmax (ps ! j) else d)"
      unfolding v Let_def np_clip_cases[OF r] by (rule exI) (rule refl)
    moreover have "val_hardmin (ps ! j) \<le> getInitialParameters nrm ps nw ! w ! j \<and>
        getInitialParameters nrm ps nw ! w ! j \<le> val_hardmax (ps ! j)"
      unfolding v by (rule np_clip_range[OF r])
    ultimately show ?thesis by blast
  qed
  moreover have "length (getInitialParameters nrm ps nw ! w) = length ps" if "w < nat nw" for w
    using that by (simp add: getInitialParameters_def walkers_nth walker_values_length)
  ultimately show ?thesis using len by blast
qed

theorem initial_parameters_within_bounds_witness:
  "val_hardmin example_par \<le> val_hardmax example_par \<and>
   getInitialParameters (\<lambda>mu w k. mu + 100 * w) [example_par] 2 = [[10], [10]] \<and>
   val_hardmin example_par
     \<le> getInitialParameters (\<lambda>mu w k. mu + 100 * w) [example_par] 2 ! 1 ! 0 \<and>
   getInitialParameters (\<lambda>mu w k. mu + 100 * w) [example_par] 2 ! 1 ! 0
     \<le> val_hardmax example_par"
proof -
  have h: "\<forall>p \<in> set [example_par]. val_hardmin p \<le> val_hardmax p"
    by (simp add: example_par_def)
  have v: "getInitialParameters (\<lambda>mu w k. mu + 100 * w) [example_par] 2 = [[10], [10]]"
    by (simp add: getInitialParameters_def example_par_def np_clip_def numeral_2_eq_2)
  from initial_parameters_within_bounds[OF h, of "\<lambda>mu w k. mu + 100 * w" 2]
  have "val_hardmin ([example_par] ! 0)
          \<le> getInitialParameters (\<lambda>mu w k. mu + 100 * w) [example_par] 2 ! 1 ! 0 \<and>
        getInitialParameters (\<lambda>mu w k. mu + 100 * w) [example_par] 2 ! 1 ! 0
          \<le> val_hardmax ([example_par] ! 0)"
    by simp
  with h v show ?thesis by (simp add: example_par_def)
qed

text \<open>
  C9.  The spread handed to the generator for a parameter is \<open>val_sigma * 0.1\<close> when
  \<open>0 < val_sigma * 0.1 < val_delta\<close>, and \<open>val_delta\<close> in every other case (the case
  \<open>val_sigma * 0.1 = val_delta\<close> among them).
\<close>

theorem draw_spread_width_override:
  assumes "w < nat nw" "j < length ps"
  shows "getInitialParameters nrm ps nw ! w ! j =
    np_clip (nrm (val_init (ps ! j))
                 (if 0 < val_sigma (ps ! j) * 0.1 \<and> val_sigma (ps ! j) * 0.1 < val_delta (ps ! j)
                  then val_sigma (ps ! j) * 0.1 else val_delta (ps ! j))
                 (w * length ps + j))
            (val_hardmin (ps ! j)) (val_hardmax (ps ! j))"
  using assms by (simp add: getInitialParameters_def walkers_nth walker_values_nth)

text \<open>
  With a generator that returns the spread it was asked for, the value read back is the
  spread: a tenth of sigma for the example parameter, delta once sigma is too large.
\<close>

theorem draw_spread_width_override_witness:
  "(1::nat) < nat 2 \<and> (0::nat) < length [example_par] \<and>
   getInitialParameters (\<lambda>mu w k. w) [example_par] 2 ! 1 ! 0 = val_sigma example_par * 0.1 \<and>
   getInitialParameters (\<lambda>mu w k. w) [example_par\<lparr>val_sigma := 60\<rparr>] 2 ! 1 ! 0
     = val_delta example_par"
proof -
  have h: "(1::nat) < nat 2" "(0::nat) < length [example_par]"
      "(0::nat) < length [example_par\<lparr>val_sigma := 60\<rparr>]" by simp_all
  show ?thesis
    using draw_spread_width_override[OF h(1) h(2), of "\<lambda>mu w k. w"]
      draw_spread_width_override[OF h(1) h(3), of "\<lambda>mu w k. w"]
    by (simp add: example_par_def np_clip_def)
qed

section \<open>Properties of expandSystems\<close>

lemma star_not_alnum: "\<not> is_alnum (CHR ''*'')"
  by (simp add: is_alnum_def)

text \<open>The matcher finds exactly the decompositions the pattern describes.\<close>

lemma re_match_SomeD:
  assumes "re_match s = Some (g1, g2)"
  shows "\<exists>rest. s = g1 @ ''*'' @ g2 @ rest \<and> g1 \<noteq> [] \<and> list_all is_alnum g1 \<and>
           g2 \<noteq> [] \<and> list_all is_digit g2 \<and> (rest = [] \<or> \<not> is_digit (hd rest))"
proof -
  obtain r' where r: "dropWhile is_alnum s = CHR ''*'' # r'"
    and g1: "g1 = takeWhile is_alnum s" "g1 \<noteq> []"
    and g2: "g2 = takeWhile is_digit r'" "g2 \<noteq> []"
    using assms by (auto simp: re_match_def Let_def split: list.splits if_splits)
  have s: "s = g1 @ ''*'' @ g2 @ dropWhile is_digit r'"
    using takeWhile_dropWhile_id[of is_alnum s] takeWhile_dropWhile_id[of is_digit r'] r g1 g2
    by simp
  have "list_all is_alnum g1" using g1 by (simp add: list_all_iff) (meson set_takeWhileD)
  moreover have "list_all is_digit g2" using g2 by (simp add: list_all_iff) (meson set_takeWhileD)
  moreover have "dropWhile is_digit r' = [] \<or> \<not> is_digit (hd (dropWhile is_digit r'))"
    using hd_dropWhile[of is_digit r'] by blast
  ultimately show ?thesis using s g1 g2 by blast
qed

lemma re_match_SomeI:
  assumes "s = g1 @ ''*'' @ g2 @ rest" "g1 \<noteq> []" "list_all is_alnum g1"
    "g2 \<noteq> []" "list_all is_digit g2" "rest = [] \<or> \<not> is_digit (hd rest)"
  shows "re_match s = Some (g1, g2)"
proof -
  have a: "takeWhile is_alnum s = g1" "dropWhile is_alnum s = ''*'' @ g2 @ rest"
    using assms(1,3) star_not_alnum by (simp_all add: list_all_iff)
  have "takeWhile is_digit (g2 @ rest) = g2"
    using assms(5,6) by (cases rest) (simp_all add: list_all_iff)
  with a assms(2,4) show ?thesis by (simp add: re_match_def)
qed

lemma expandSystems_append: "expandSystems (xs @ ys) = expandSystems xs @ expandSystems ys"
  by (induction xs) (simp_all split: option.splits)

text \<open>
  C10, as stated: every entry that is \<^verbatim>\<open>NAME*K\<close> becomes \<open>K\<close> copies of \<open>NAME\<close> and every
  other entry is passed through unchanged.  The entry \<^verbatim>\<open>ab*2x\<close> is not of that form
  (what follows the star is not a number), yet it is replaced by two copies of
  \<^verbatim>\<open>ab\<close>: the pattern is matched at the start of the entry and what follows the
  digits is dropped.
\<close>

theorem expandSystems_whole_entry_counterexample:
  "\<not> (\<forall>entries. expandSystems entries = spec_expand entries)"
proof
  assume "\<forall>entries. expandSystems entries = spec_expand entries"
  then have "expandSystems [''ab*2x''] = spec_expand [''ab*2x'']" by blast
  moreover have "expandSystems [''ab*2x''] = [''ab'', ''ab'']" by code_simp
  moreover have "spec_expand [''ab*2x''] = [''ab*2x'']" by code_simp
  ultimately show False by simp
qed

text \<open>
  C10, amended: the expansion works entry by entry and keeps the order of the list.
  An entry that begins with a non-empty run of letters and digits, a star and a
  non-empty run of decimal digits expands to as many copies of the run of letters and
  digits as the run of digits says (read up to the first character that is not a
  digit; the rest of the entry is dropped).  An entry that does not begin so is passed
  through unchanged.
\<close>

theorem expandSystems_prefix_form:
  "expandSystems (xs @ ys) = expandSystems xs @ expandSystems ys \<and>
   (\<forall>name ds rest.
      name \<noteq> [] \<and> list_all is_alnum name \<and> ds \<noteq> [] \<and> list_all is_digit ds \<and>
      (rest = [] \<or> \<not> is_digit (hd rest)) \<longrightarrow>
      expandSystems [name @ ''*'' @ ds @ rest] = replicate (int_of_digits ds) name) \<and>
   (\<forall>s. \<not> (\<exists>name ds rest. s = name @ ''*'' @ ds @ rest \<and> name \<noteq> [] \<and>
              list_all is_alnum name \<and> ds \<noteq> [] \<and> list_all is_digit ds)
        \<longrightarrow> expandSystems [s] = [s])"
proof (intro conjI allI impI)
  show "expandSystems (xs @ ys) = expandSystems xs @ expandSystems ys"
    by (rule expandSystems_append)
next
  fix name ds rest
  assume a: "name \<noteq> [] \<and> list_all is_alnum name \<and> ds \<noteq> [] \<and> list_all is_digit ds \<and>
      (rest = [] \<or> \<not> is_digit (hd rest))"
  then have "re_match (name @ ''*'' @ ds @ rest) = Some (name, ds)"
    by (intro re_match_SomeI[where rest = rest]) simp_all
  then show "expandSystems [name @ ''*'' @ ds @ rest] = replicate (int_of_digits ds) name"
    by simp
next
  fix s
  assume n: "\<not> (\<exists>name ds rest. s = name @ ''*'' @ ds @ rest \<and> name \<noteq> [] \<and>
              list_all is_alnum name \<and> ds \<noteq> [] \<and> list_all is_digit ds)"
  have "re_match s = None"
  proof (cases "re_match s")
    case None
    then show ?thesis .
  next
    case (Some g)
    then obtain g1 g2 where "re_match s = Some (g1, g2)" by (cases g) simp
    from re_match_SomeD[OF this] n show ?thesis by blast
  qed
  then show "expandSystems [s] = [s]" by simp
qed

theorem expandSystems_prefix_form_witness:
  "expandSystems ([''n1*03x'', ''host''] @ [''a.b*3''])
     = [''n1'', ''n1'', ''n1'', ''host'', ''a.b*3''] \<and>
   expandSystems [''n1'' @ ''*'' @ ''03'' @ ''x''] = replicate (int_of_digits ''03'') ''n1'' \<and>
   int_of_digits ''03'' = 3 \<and>
   expandSystems [''a.b*3''] = [''a.b*3'']"
proof -
  have d: "''n1'' \<noteq> [] \<and> list_all is_alnum ''n1'' \<and> ''03'' \<noteq> [] \<and> list_all is_digit ''03'' \<and>
      (''x'' = [] \<or> \<not> is_digit (hd ''x''))"
    by (simp add: is_alnum_def is_digit_def)
  have n: "\<not> (\<exists>name ds rest. ''a.b*3'' = name @ ''*'' @ ds @ rest \<and> name \<noteq> [] \<and>
              list_all is_alnum name \<and> ds \<noteq> [] \<and> list_all is_digit ds)"
  proof
    assume "\<exists>name ds rest. ''a.b*3'' = name @ ''*'' @ ds @ rest \<and> name \<noteq> [] \<and>
              list_all is_alnum name \<and> ds \<noteq> [] \<and> list_all is_digit ds"
    then obtain name ds rest where e: "''a.b*3'' = name @ ''*'' @ ds @ rest"
      and nm: "name \<noteq> []" "list_all is_alnum name" by blast
    from e nm(1) have "name = ''a'' \<or> (\<exists>t. name = ''a.'' @ t)"
      by (cases name; cases "tl name") (auto simp: Cons_eq_append_conv)
    with nm(2) e show False by (auto simp: is_alnum_def)
  qed
  have t: "expandSystems ([''n1*03x'', ''host''] @ [''a.b*3'']) =
           expandSystems [''n1*03x'', ''host''] @ expandSystems [''a.b*3'']"
    and f: "expandSystems [''n1'' @ ''*'' @ ''03'' @ ''x''] = replicate (int_of_digits ''03'') ''n1''"
    and u: "expandSystems [''a.b*3''] = [''a.b*3'']"
    using expandSystems_prefix_form[of "[''n1*03x'', ''host'']" "[''a.b*3'']"] d n by blast+
  have i: "int_of_digits ''03'' = 3" by (simp add: int_of_digits_def)
  have "expandSystems [''n1*03x'', ''host''] = [''n1'', ''n1'', ''n1'', ''host'']" by code_simp
  with t f u i show ?thesis by simp
qed

section \<open>Properties of the sampling loop\<close>

lemma map2_update_take:
  "length xs = length ps \<Longrightarrow> k \<le> i \<Longrightarrow>
   map (take k) (map2 (\<lambda>row v. row[i := v]) xs ps) = map (take k) xs"
  by (induction xs ps rule: list_induct2) simp_all

lemma map2_update_length:
  "length xs = length ps \<Longrightarrow> length (map2 (\<lambda>row v. row[i := v]) xs ps) = length xs"
  by simp

lemma map2_update_rows:
  "length xs = length ps \<Longrightarrow> \<forall>r \<in> set xs. length r = n \<and> (\<forall>v \<in> set r. Q v) \<Longrightarrow>
   \<forall>v \<in> set ps. Q v \<Longrightarrow>
   \<forall>r \<in> set (map2 (\<lambda>row v. row[i := v]) xs ps). length r = n \<and> (\<forall>v \<in> set r. Q v)"
proof (induction xs ps rule: list_induct2)
  case Nil
  then show ?case by simp
next
  case (Cons x xs p ps)
  have "\<forall>v \<in> set (x[i := p]). Q v"
    using Cons.prems set_update_subset_insert[of x i p] by auto
  with Cons show ?case by simp
qed

lemma set_iteration3_ok:
  assumes "wf3 a" "i < shape1 a" "length p = shape0 a" "list_all (\<lambda>v. length v = shape2 a) p"
  shows "\<exists>a'. set_iteration3 a i p = Inr a' \<and> wf3 a' \<and> shape0 a' = shape0 a \<and>
           shape1 a' = shape1 a \<and> shape2 a' = shape2 a \<and>
           (\<forall>k \<le> i. map (take k) (data3 a') = map (take k) (data3 a))"
proof -
  let ?d = "map2 (\<lambda>row v. row[i := v]) (data3 a) p"
  have len: "length (data3 a) = length p" using assms(1,3) by (simp add: wf3_def)
  have rows: "\<forall>r \<in> set (data3 a). length r = shape1 a \<and> (\<forall>v \<in> set r. length v = shape2 a)"
    using assms(1) by (simp add: wf3_def list_all_iff)
  have "\<forall>r \<in> set ?d. length r = shape1 a \<and> (\<forall>v \<in> set r. length v = shape2 a)"
    using map2_update_rows[OF len, where Q = "\<lambda>v. length v = shape2 a" and n = "shape1 a" and i = i] rows assms(4)
    by (simp add: list_all_iff)
  then have "wf3 (a\<lparr>data3 := ?d\<rparr>)"
    using len assms(1) by (simp add: wf3_def list_all_iff)
  moreover have "\<forall>k \<le> i. map (take k) ?d = map (take k) (data3 a)"
    using map2_update_take[OF len] by blast
  moreover have "set_iteration3 a i p = Inr (a\<lparr>data3 := ?d\<rparr>)"
    using assms by (simp add: set_iteration3_def)
  ultimately show ?thesis by simp
qed

lemma map2_update_rows2:
  "length xs = length ls \<Longrightarrow> \<forall>r \<in> set xs. length r = n \<Longrightarrow>
   \<forall>r \<in> set (map2 (\<lambda>row x. row[i := x]) xs ls). length r = n"
  by (induction xs ls rule: list_induct2) simp_all

lemma set_iteration2_ok:
  assumes "wf2 a" "i < ncols a" "length l = nrows a"
  shows "\<exists>a'. set_iteration2 a i l = Inr a' \<and> wf2 a' \<and> nrows a' = nrows a \<and>
           ncols a' = ncols a \<and>
           (\<forall>k \<le> i. map (take k) (data2 a') = map (take k) (data2 a))"
proof -
  let ?d = "map2 (\<lambda>row x. row[i := x]) (data2 a) l"
  have len: "length (data2 a) = length l" using assms(1,3) by (simp add: wf2_def)
  have "\<forall>r \<in> set ?d. length r = ncols a"
    using map2_update_rows2[OF len, where n = "ncols a"] assms(1) by (simp add: wf2_def list_all_iff)
  then have "wf2 (a\<lparr>data2 := ?d\<rparr>)"
    using len assms(1) by (simp add: wf2_def list_all_iff)
  moreover have "\<forall>k \<le> i. map (take k) ?d = map (take k) (data2 a)"
    using map2_update_take[OF len] by blast
  moreover have "set_iteration2 a i l = Inr (a\<lparr>data2 := ?d\<rparr>)"
    using assms by (simp add: set_iteration2_def)
  ultimately show ?thesis by simp
qed

lemma writeNpz_not_export: "\<not> is_export (writeNpz f ch lp m)"
  by (simp add: writeNpz_def)

lemma advances_refl: "buffers_ok (st_chain st) (st_lnprob st) \<Longrightarrow> advances 0 st st"
  by (simp add: advances_def)

lemma advances_trans:
  assumes "advances m st st'" "advances n st' st''"
  shows "advances (m + n) st st''"
proof -
  obtain evs where e1: "st_trace st' = st_trace st @ evs" "list_all (\<lambda>ev. \<not> is_export ev) evs"
    using assms(1) by (auto simp: advances_def)
  obtain evs' where e2: "st_trace st'' = st_trace st' @ evs'" "list_all (\<lambda>ev. \<not> is_export ev) evs'"
    using assms(2) by (auto simp: advances_def)
  have "st_trace st'' = st_trace st @ (evs @ evs')" "list_all (\<lambda>ev. \<not> is_export ev) (evs @ evs')"
    using e1 e2 by simp_all
  then have "\<exists>evs. st_trace st'' = st_trace st @ evs \<and> list_all (\<lambda>ev. \<not> is_export ev) evs"
    by blast
  moreover have "\<forall>k \<le> st_index st.
      map (take k) (data3 (st_chain st'')) = map (take k) (data3 (st_chain st)) \<and>
      map (take k) (data2 (st_lnprob st'')) = map (take k) (data2 (st_lnprob st))"
    using assms by (simp add: advances_def)
  ultimately show ?thesis using assms by (simp add: advances_def)
qed

lemma loop_body_ok:
  assumes "buffers_ok (st_chain st) (st_lnprob st)" "st_index st < shape1 (st_chain st)"
    "length (fst pl) = shape0 (st_chain st)"
    "list_all (\<lambda>v. length v = shape2 (st_chain st)) (fst pl)"
    "length (snd pl) = shape0 (st_chain st)"
  shows "\<exists>st'. loop_body c e pl stop st =
           Inr (stop \<in> {Some AfterChain, Some AfterLnprob, Some AfterIndex}, st') \<and>
           advances (if stop \<in> {Some AfterChain, Some AfterLnprob} then 0 else 1) st st'"
proof -
  have w: "wf3 (st_chain st)" "wf2 (st_lnprob st)" "nrows (st_lnprob st) = shape0 (st_chain st)"
    "ncols (st_lnprob st) = shape1 (st_chain st)"
    using assms(1) by (simp_all add: buffers_ok_def)
  obtain ch where ch: "set_iteration3 (st_chain st) (st_index st) (fst pl) = Inr ch" "wf3 ch"
    "shape0 ch = shape0 (st_chain st)" "shape1 ch = shape1 (st_chain st)"
    "shape2 ch = shape2 (st_chain st)"
    "\<forall>k \<le> st_index st. map (take k) (data3 ch) = map (take k) (data3 (st_chain st))"
    using set_iteration3_ok[OF w(1) assms(2,3,4)] by blast
  obtain lp where lp: "set_iteration2 (st_lnprob st) (st_index st) (snd pl) = Inr lp" "wf2 lp"
    "nrows lp = nrows (st_lnprob st)" "ncols lp = ncols (st_lnprob st)"
    "\<forall>k \<le> st_index st. map (take k) (data2 lp) = map (take k) (data2 (st_lnprob st))"
    using set_iteration2_ok[OF w(2), of "st_index st" "snd pl"] assms(2,5) w(3,4) by auto
  have b: "buffers_ok ch lp" using ch lp w by (simp add: buffers_ok_def)
  have b': "buffers_ok ch (st_lnprob st)" using ch w by (simp add: buffers_ok_def)
  show ?thesis
    using ch lp b b'
    by (auto simp: loop_body_def Let_def advances_def writeNpz_not_export)
qed

lemma sampler_okD:
  "sampler_ok gen n nw nd \<Longrightarrow> k < n \<Longrightarrow>
   length (fst (gen k)) = nw \<and> list_all (\<lambda>v. length v = nd) (fst (gen k)) \<and> length (snd (gen k)) = nw"
  by (simp add: sampler_ok_def list_all_iff)

lemma advances_buffers: "advances n st st' \<Longrightarrow> buffers_ok (st_chain st') (st_lnprob st')"
  by (simp add: advances_def)

lemma sample_loop_interrupted:
  assumes "buffers_ok (st_chain st) (st_lnprob st)" "st_index st + n \<le> shape1 (st_chain st)"
    "sampler_ok gen (items_taken (j, ph)) (shape0 (st_chain st)) (shape2 (st_chain st))"
    "interrupt_at e = Some (j, ph)" "i \<le> j" "j < i + n"
  shows "\<exists>st'. sample_loop c e gen i n st = (Interrupted, st') \<and>
               advances (steps_done (j, ph) - i) st st'"
  using assms
proof (induction n arbitrary: i st)
  case 0
  then show ?case by simp
next
  case (Suc n)
  show ?case
  proof (cases "j = i")
    case True
    then have ip: "interrupt_phase e i = Some ph"
      using Suc.prems(4) by (simp add: interrupt_phase_def)
    show ?thesis
    proof (cases "ph = Waiting")
      case True
      with ip \<open>j = i\<close> Suc.prems(1) show ?thesis
        by (simp add: advances_refl steps_done_def)
    next
      case False
      then have "i < items_taken (j, ph)" using \<open>j = i\<close> by (simp add: items_taken_def)
      then have item: "length (fst (gen i)) = shape0 (st_chain st)"
        "list_all (\<lambda>v. length v = shape2 (st_chain st)) (fst (gen i))"
        "length (snd (gen i)) = shape0 (st_chain st)"
        using sampler_okD[OF Suc.prems(3), of i] by simp_all
      have m: "Some ph \<in> {Some AfterChain, Some AfterLnprob, Some AfterIndex}"
        using False by (cases ph) simp_all
      obtain st' where b: "loop_body c e (gen i) (Some ph) st = Inr (True, st')"
        and a: "advances (if Some ph \<in> {Some AfterChain, Some AfterLnprob} then 0 else 1) st st'"
        using loop_body_ok[OF Suc.prems(1) _ item, of c e "Some ph"] Suc.prems(2) m by auto
      have "(if Some ph \<in> {Some AfterChain, Some AfterLnprob} then 0 else 1)
              = steps_done (j, ph) - i"
        using False \<open>j = i\<close> by (cases ph) (simp_all add: steps_done_def)
      with a have "advances (steps_done (j, ph) - i) st st'" by simp
      moreover have "sample_loop c e gen i (Suc n) st = (Interrupted, st')"
        using ip False b by simp
      ultimately show ?thesis by blast
    qed
  next
    case False
    with Suc.prems have lt: "Suc i \<le> j" "j < Suc i + n" by simp_all
    have ip: "interrupt_phase e i = None"
      using False Suc.prems(4) by (simp add: interrupt_phase_def)
    have "i < items_taken (j, ph)" using lt by (simp add: items_taken_def)
    then have item: "length (fst (gen i)) = shape0 (st_chain st)"
      "list_all (\<lambda>v. length v = shape2 (st_chain st)) (fst (gen i))"
      "length (snd (gen i)) = shape0 (st_chain st)"
      using sampler_okD[OF Suc.prems(3), of i] by simp_all
    obtain st1 where b: "loop_body c e (gen i) None st = Inr (False, st1)"
      and a: "advances 1 st st1"
      using loop_body_ok[OF Suc.prems(1) _ item, of c e None] Suc.prems(2) by auto
    have s: "shape0 (st_chain st1) = shape0 (st_chain st)" "shape1 (st_chain st1) = shape1 (st_chain st)"
      "shape2 (st_chain st1) = shape2 (st_chain st)" "st_index st1 = st_index st + 1"
      using a by (simp_all add: advances_def)
    have "\<exists>st'. sample_loop c e gen (Suc i) n st1 = (Interrupted, st') \<and>
            advances (steps_done (j, ph) - Suc i) st1 st'"
      using Suc.prems(2,3) s lt
      by (intro Suc.IH[OF advances_buffers[OF a] _ _ Suc.prems(4)]) simp_all
    then obtain st' where r: "sample_loop c e gen (Suc i) n st1 = (Interrupted, st')"
      and a': "advances (steps_done (j, ph) - Suc i) st1 st'" by blast
    have "advances (1 + (steps_done (j, ph) - Suc i)) st st'" by (rule advances_trans[OF a a'])
    moreover have "1 + (steps_done (j, ph) - Suc i) = steps_done (j, ph) - i"
      using lt by (auto simp: steps_done_def)
    ultimately have "advances (steps_done (j, ph) - i) st st'" by simp
    moreover have "sample_loop c e gen i (Suc n) st = (Interrupted, st')"
      using ip b r by simp
    ultimately show ?thesis by blast
  qed
qed

lemma sample_loop_exhausted:
  assumes "buffers_ok (st_chain st) (st_lnprob st)" "st_index st + n \<le> shape1 (st_chain st)"
    "sampler_ok gen (i + n) (shape0 (st_chain st)) (shape2 (st_chain st))"
    "\<forall>j ph. interrupt_at e = Some (j, ph) \<longrightarrow> j < i \<or> i + n \<le> j"
  shows "\<exists>st'. sample_loop c e gen i n st = (Exhausted, st') \<and> advances n st st'"
  using assms
proof (induction n arbitrary: i st)
  case 0
  then show ?case by (simp add: advances_refl)
next
  case (Suc n)
  have ni: "interrupt_phase e i = None"
    using Suc.prems(4) by (auto simp: interrupt_phase_def split: option.splits)
  have item: "length (fst (gen i)) = shape0 (st_chain st)"
    "list_all (\<lambda>v. length v = shape2 (st_chain st)) (fst (gen i))"
    "length (snd (gen i)) = shape0 (st_chain st)"
    using sampler_okD[OF Suc.prems(3), of i] by simp_all
  obtain st1 where b: "loop_body c e (gen i) None st = Inr (False, st1)"
    and a: "advances 1 st st1"
    using loop_body_ok[OF Suc.prems(1) _ item, of c e None] Suc.prems(2) by auto
  have s: "shape0 (st_chain st1) = shape0 (st_chain st)" "shape1 (st_chain st1) = shape1 (st_chain st)"
    "shape2 (st_chain st1) = shape2 (st_chain st)" "st_index st1 = st_index st + 1"
    using a by (simp_all add: advances_def)
  have "\<exists>st'. sample_loop c e gen (Suc i) n st1 = (Exhausted, st') \<and> advances n st1 st'"
    using Suc.prems(2,3,4) s
    by (intro Suc.IH[OF advances_buffers[OF a]]) auto
  then obtain st' where r: "sample_loop c e gen (Suc i) n st1 = (Exhausted, st')"
    and a': "advances n st1 st'" by blast
  have "advances (1 + n) st st'" by (rule advances_trans[OF a a'])
  moreover have "sample_loop c e gen i (Suc n) st = (Exhausted, st')"
    using ni b r by simp
  ultimately show ?case by auto
qed

section \<open>Properties of the initialisation\<close>

lemma zeros3_InrD:
  "zeros3 a b c = Inr z \<Longrightarrow>
   0 \<le> a \<and> 0 \<le> b \<and> 0 \<le> c \<and> wf3 z \<and> shape0 z = nat a \<and> shape1 z = nat b \<and> shape2 z = nat c \<and>
   data3 z = replicate (nat a) (replicate (nat b) (replicate (nat c) 0))"
  by (auto simp: zeros3_def wf3_def list_all_iff split: if_splits)

lemma zeros2_InrD:
  "zeros2 a b = Inr z \<Longrightarrow>
   0 \<le> a \<and> 0 \<le> b \<and> wf2 z \<and> nrows z = nat a \<and> ncols z = nat b \<and>
   data2 z = replicate (nat a) (replicate (nat b) 0)"
  by (auto simp: zeros2_def wf2_def list_all_iff split: if_splits)

lemma map2_append_replicate:
  "length xs = n \<Longrightarrow> map2 (@) xs (replicate n t) = map (\<lambda>r. r @ t) xs"
  by (induction xs arbitrary: n) auto

lemma wf3_append_rows:
  "wf3 a \<Longrightarrow> \<forall>v \<in> set t. length v = shape2 a \<Longrightarrow>
   wf3 \<lparr>shape0 = shape0 a, shape1 = shape1 a + length t, shape2 = shape2 a,
        data3 = map (\<lambda>r. r @ t) (data3 a)\<rparr>"
  by (auto simp: wf3_def list_all_iff)

lemma wf2_append_rows:
  "wf2 a \<Longrightarrow>
   wf2 \<lparr>nrows = nrows a, ncols = ncols a + length t, data2 = map (\<lambda>r. r @ t) (data2 a)\<rparr>"
  by (auto simp: wf2_def list_all_iff)

text \<open>What the branch that continues a run computes, when it does not raise.\<close>

lemma continue_from_InrD:
  assumes "continue_from c e nd = Inr (pos, chain, lnprob, start)"
    and "load_npz e (outnpz c) = Some (ch, lp)" and "buffers_ok ch lp"
  shows "start = shape1 ch \<and> 0 < shape1 ch \<and> int (shape1 ch) \<le> niters c \<and>
         shape0 ch = nat (nwalkers c) \<and> shape2 ch = nd \<and>
         pos = map last (data3 ch) \<and>
         chain = \<lparr>shape0 = shape0 ch, shape1 = nat (niters c), shape2 = shape2 ch,
                   data3 = map (\<lambda>r. r @ replicate (nat (niters c) - shape1 ch) (replicate nd 0))
                             (data3 ch)\<rparr> \<and>
         lnprob = \<lparr>nrows = nrows lp, ncols = nat (niters c),
                   data2 = map (\<lambda>r. r @ replicate (nat (niters c) - shape1 ch) 0) (data2 lp)\<rparr> \<and>
         buffers_ok chain lnprob"
proof -
  have w: "wf3 ch" "wf2 lp" "nrows lp = shape0 ch" "ncols lp = shape1 ch"
    using assms(3) by (simp_all add: buffers_ok_def)
  from assms(1,2) obtain bc bp where
    p: "last_iteration ch = Inr pos" and
    bc: "zeros3 (nwalkers c) (niters c - int (shape1 ch)) (int nd) = Inr bc" and
    bp: "zeros2 (nwalkers c) (niters c - int (shape1 ch)) = Inr bp" and
    cc: "concatenate3 ch bc = Inr chain" and
    cl: "concatenate2 lp bp = Inr lnprob" and
    st: "start = shape1 ch"
    by (auto simp: continue_from_def Let_def split: sum.splits)
  note zc = zeros3_InrD[OF bc] and zp = zeros2_InrD[OF bp]
  have pos: "0 < shape1 ch" "pos = map last (data3 ch)"
    using p by (auto simp: last_iteration_def split: if_splits)
  have sh: "shape0 ch = nat (nwalkers c)" "shape2 ch = nd"
    using cc zc by (auto simp: concatenate3_def split: if_splits)
  have k: "nat (niters c - int (shape1 ch)) = nat (niters c) - shape1 ch"
    "shape1 ch + (nat (niters c) - shape1 ch) = nat (niters c)"
    using zc by linarith+
  have l3: "length (data3 ch) = nat (nwalkers c)" using w(1) sh by (simp add: wf3_def)
  have l2: "length (data2 lp) = nat (nwalkers c)" using w(2,3) sh by (simp add: wf2_def)
  have chain: "chain = \<lparr>shape0 = shape0 ch, shape1 = nat (niters c), shape2 = shape2 ch,
                   data3 = map (\<lambda>r. r @ replicate (nat (niters c) - shape1 ch) (replicate nd 0))
                             (data3 ch)\<rparr>"
    using cc zc sh k map2_append_replicate[OF l3] by (auto simp: concatenate3_def)
  have lnprob: "lnprob = \<lparr>nrows = nrows lp, ncols = nat (niters c),
                   data2 = map (\<lambda>r. r @ replicate (nat (niters c) - shape1 ch) 0) (data2 lp)\<rparr>"
    using cl zp w k map2_append_replicate[OF l2] by (auto simp: concatenate2_def split: if_splits)
  have "wf3 chain"
    using wf3_append_rows[OF w(1), of "replicate (nat (niters c) - shape1 ch) (replicate nd 0)"]
      sh k by (simp add: chain)
  moreover have "wf2 lnprob"
    using wf2_append_rows[OF w(2), of "replicate (nat (niters c) - shape1 ch) 0"] w k
    by (simp add: lnprob)
  ultimately have "buffers_ok chain lnprob"
    using w by (simp add: buffers_ok_def chain lnprob)
  with st pos sh chain lnprob zc show ?thesis by simp
qed

lemma doMCMC_init_InrD:
  assumes "doMCMC_init c e = (tr, Inr ini)" "checkpoint_ok c e"
  shows "buffers_ok (i_chain ini) (i_lnprob ini) \<and>
         shape0 (i_chain ini) = nat (nwalkers c) \<and>
         shape1 (i_chain ini) = nat (niters c) \<and> 0 \<le> niters c \<and>
         shape2 (i_chain ini) =
           length (hd (initial_positions c e (xspec_pool e (expandSystems (systems c))))) \<and>
         i_start ini \<le> nat (niters c) \<and>
         i_pool ini = xspec_pool e (expandSystems (systems c)) \<and>
         list_all (\<lambda>ev. \<not> is_export ev \<and> \<not> is_checkpoint ev) tr"
proof -
  let ?pl = "xspec_pool e (expandSystems (systems c))"
  obtain row rest where p0: "initial_positions c e ?pl = row # rest"
    using assms(1) by (auto simp: doMCMC_init_def Let_def split: list.splits)
  show ?thesis
  proof (cases "continuerun c")
    case False
    with assms(1) p0 obtain ch lp where
      z: "zeros3 (nwalkers c) (niters c) (int (length row)) = Inr ch"
         "zeros2 (nwalkers c) (niters c) = Inr lp"
      and i: "i_chain ini = ch" "i_lnprob ini = lp" "i_start ini = 0" "i_pool ini = ?pl"
      and t: "tr = (if nburn c > 0 then [BurnIn (nburn c)] else [])"
      by (auto simp: doMCMC_init_def Let_def split: sum.splits if_splits)
    note z3 = zeros3_InrD[OF z(1)] and z2 = zeros2_InrD[OF z(2)]
    have "buffers_ok ch lp" using z3 z2 by (simp add: buffers_ok_def)
    with i t z3 p0 show ?thesis by simp
  next
    case True
    with assms(1) p0 obtain pos ch lp start where
      cf: "continue_from c e (length row) = Inr (pos, ch, lp, start)"
      and i: "i_chain ini = ch" "i_lnprob ini = lp" "i_start ini = start" "i_pool ini = ?pl"
      and t: "tr = []"
      by (auto simp: doMCMC_init_def Let_def split: sum.splits if_splits)
    from cf obtain och olp where l: "load_npz e (outnpz c) = Some (och, olp)"
      by (auto simp: continue_from_def split: option.splits)
    with assms(2) have ok: "buffers_ok och olp" by (simp add: checkpoint_ok_def)
    note d = continue_from_InrD[OF cf l ok]
    have "shape0 ch = nat (nwalkers c)" "shape1 ch = nat (niters c)" "shape2 ch = length row"
      using d by simp_all
    moreover have "start \<le> nat (niters c)" "0 \<le> niters c" using d by linarith+
    moreover have "buffers_ok ch lp" using d by blast
    ultimately show ?thesis using i t p0 by simp
  qed
qed

section \<open>Properties of writeXSpecChain\<close>

lemma py_index_in_range:
  "1 \<le> idx \<Longrightarrow> idx \<le> int (length params) \<Longrightarrow> py_index params (idx - 1) = Inr (par_of params idx)"
  by (simp add: py_index_def par_of_def)

lemma undo_log_frame:
  "undo_log params r i idxs s = Inr s' \<Longrightarrow> length s' = length s \<and> (\<forall>a. a \<noteq> r \<longrightarrow> s' ! a = s ! a)"
proof (induction idxs arbitrary: i s)
  case Nil
  then show ?case by simp
next
  case (Cons idx idxs)
  then show ?case
    by (fastforce split: sum.splits if_splits ndarray.splits)
qed

lemma undo_row_length: "length (undo_row fs i row) = length row"
  by (induction fs arbitrary: i row) simp_all

lemma undo_row_nth:
  "k < length row \<Longrightarrow>
   undo_row fs i row ! k =
     (if i \<le> k \<and> k < i + length fs \<and> fs ! (k - i) then 10 powr (row ! k) else row ! k)"
proof (induction fs arbitrary: i row)
  case Nil
  then show ?case by simp
next
  case (Cons f fs)
  show ?case
  proof (cases "k = i")
    case True
    with Cons show ?thesis by simp
  next
    case False
    then have "(i \<le> k \<and> k < i + length (f # fs) \<and> (f # fs) ! (k - i)) =
               (Suc i \<le> k \<and> k < Suc i + length fs \<and> fs ! (k - Suc i))"
    proof (cases "i < k")
      case True
      then have "k - i = Suc (k - Suc i)" by simp
      then have "(f # fs) ! (k - i) = fs ! (k - Suc i)" by simp
      with True show ?thesis by auto
    next
      case f: False
      with False show ?thesis by simp
    qed
    with Cons False show ?thesis by simp
  qed
qed

lemma undo_log_ok:
  assumes "r < length s" "s ! r = A2 a"
    "list_all (\<lambda>idx. 1 \<le> idx \<and> idx \<le> int (length params)) idxs"
    "i + length idxs \<le> ncols a"
  shows "undo_log params r i idxs s =
           Inr (s[r := A2 (a\<lparr>data2 := map (undo_row (map (\<lambda>idx. par_log (par_of params idx)) idxs) i)
                                          (data2 a)\<rparr>)])"
  using assms
proof (induction idxs arbitrary: i s a)
  case Nil
  have "s[r := A2 a] = s" using Nil.prems(2) list_update_id[of s r] by simp
  then show ?case by simp
next
  case (Cons idx idxs)
  have p: "py_index params (idx - 1) = Inr (par_of params idx)"
    using Cons.prems(3) by (simp add: py_index_in_range)
  show ?case
  proof (cases "par_log (par_of params idx)")
    case False
    with p Cons show ?thesis by simp
  next
    case True
    let ?a' = "a\<lparr>data2 := map (\<lambda>row. row[i := 10 powr (row ! i)]) (data2 a)\<rparr>"
    have pc: "pow10_column a i = Inr ?a'"
      using Cons.prems(4) by (simp add: pow10_column_def)
    have "undo_log params r (Suc i) idxs (s[r := A2 ?a']) =
          Inr ((s[r := A2 ?a'])[r := A2 (?a'\<lparr>data2 :=
                 map (undo_row (map (\<lambda>idx. par_log (par_of params idx)) idxs) (Suc i))
                   (data2 ?a')\<rparr>)])"
      using Cons.prems by (intro Cons.IH) simp_all
    with p True pc Cons.prems(2) show ?thesis by (simp add: comp_def)
  qed
qed

lemma header_labels_ok:
  "list_all (\<lambda>idx. 1 \<le> idx \<and> idx \<le> int (length params)) idxs \<Longrightarrow>
   header_labels params idxs = Inr (map (label_of params) idxs)"
  by (induction idxs) (simp_all add: py_index_in_range label_of_def)

lemma concat_uniform_length:
  "\<forall>r \<in> set xs. length r = n \<Longrightarrow> length (concat xs) = length xs * n"
  by (induction xs) simp_all

lemma concat_uniform_nth:
  "\<forall>r \<in> set xs. length r = n \<Longrightarrow> w < length xs \<Longrightarrow> i < n \<Longrightarrow>
   concat xs ! (w * n + i) = xs ! w ! i"
proof (induction xs arbitrary: w)
  case Nil
  then show ?case by simp
next
  case (Cons x xs)
  show ?case
  proof (cases w)
    case 0
    with Cons.prems show ?thesis by (simp add: nth_append)
  next
    case (Suc w')
    with Cons.prems have "concat xs ! (w' * n + i) = xs ! w' ! i"
      by (intro Cons.IH) simp_all
    with Cons.prems Suc show ?thesis by (simp add: nth_append)
  qed
qed

lemma row_index_bound: "w < (a::nat) \<Longrightarrow> i < n \<Longrightarrow> w * n + i < a * n"
proof -
  assume "w < a" "i < n"
  then have "w * n + i < w * n + n" by simp
  also have "\<dots> = Suc w * n" by simp
  also have "\<dots> \<le> a * n" using \<open>w < a\<close> by (intro mult_le_mono1) simp
  finally show ?thesis .
qed

text \<open>The table before the logarithm is undone: every sample followed by its chi-squared.\<close>

lemma stacked_rows:
  assumes "buffers_ok c l"
  shows "length (map2 (@) (concat (data3 c)) (map (\<lambda>x. [- x * 2]) (concat (data2 l))))
           = shape0 c * shape1 c"
    and "w < shape0 c \<Longrightarrow> i < shape1 c \<Longrightarrow>
         map2 (@) (concat (data3 c)) (map (\<lambda>x. [- x * 2]) (concat (data2 l))) ! (w * shape1 c + i)
           = data3 c ! w ! i @ [- (data2 l ! w ! i) * 2]"
    and "\<forall>r \<in> set (map2 (@) (concat (data3 c)) (map (\<lambda>x. [- x * 2]) (concat (data2 l)))).
           length r = shape2 c + 1"
proof -
  have w: "wf3 c" "wf2 l" "nrows l = shape0 c" "ncols l = shape1 c"
    using assms by (simp_all add: buffers_ok_def)
  have r3: "\<forall>r \<in> set (data3 c). length r = shape1 c" and n3: "length (data3 c) = shape0 c"
    using w(1) by (simp_all add: wf3_def list_all_iff)
  have r2: "\<forall>r \<in> set (data2 l). length r = shape1 c" and n2: "length (data2 l) = shape0 c"
    using w(2,3,4) by (simp_all add: wf2_def list_all_iff)
  have l3: "length (concat (data3 c)) = shape0 c * shape1 c"
    using concat_uniform_length[OF r3] n3 by simp
  have l2: "length (concat (data2 l)) = shape0 c * shape1 c"
    using concat_uniform_length[OF r2] n2 by simp
  show "length (map2 (@) (concat (data3 c)) (map (\<lambda>x. [- x * 2]) (concat (data2 l))))
           = shape0 c * shape1 c"
    using l3 l2 by simp
  show "map2 (@) (concat (data3 c)) (map (\<lambda>x. [- x * 2]) (concat (data2 l))) ! (w * shape1 c + i)
           = data3 c ! w ! i @ [- (data2 l ! w ! i) * 2]" if "w < shape0 c" "i < shape1 c"
  proof -
    have b: "w * shape1 c + i < shape0 c * shape1 c" using that by (rule row_index_bound)
    have "concat (data3 c) ! (w * shape1 c + i) = data3 c ! w ! i"
      using concat_uniform_nth[OF r3] that n3 by simp
    moreover have "concat (data2 l) ! (w * shape1 c + i) = data2 l ! w ! i"
      using concat_uniform_nth[OF r2] that n2 by simp
    ultimately show ?thesis using b l3 l2 by simp
  qed
  have "\<forall>v \<in> set (concat (data3 c)). length v = shape2 c"
    using w(1) by (auto simp: wf3_def list_all_iff)
  then show "\<forall>r \<in> set (map2 (@) (concat (data3 c)) (map (\<lambda>x. [- x * 2]) (concat (data2 l)))).
           length r = shape2 c + 1"
    by (auto elim!: in_set_zipE)
qed

lemma writeXSpecChain_ok:
  assumes "chain < length s" "lnprob < length s" "s ! chain = A3 c" "s ! lnprob = A2 l"
    "buffers_ok c l" "length idxs = shape2 c"
    "list_all (\<lambda>idx. 1 \<le> idx \<and> idx \<le> int (length params)) idxs"
  shows "writeXSpecChain g chain lnprob params idxs s =
    (s @ [A2 \<lparr>nrows = shape0 c * shape1 c, ncols = shape2 c + 1,
              data2 = map (undo_row (map (\<lambda>idx. par_log (par_of params idx)) idxs) 0)
                (map2 (@) (concat (data3 c)) (map (\<lambda>x. [- x * 2]) (concat (data2 l))))\<rparr>],
     chain_file_head @
       [''!Length: '' @ fmt_i (int (shape0 c * shape1 c)) @ ''  Width: '' @ fmt_i (int (shape2 c) + 1),
        ''!'' @ join '' '' (map (label_of params) idxs @ [''Chi-Squared''])] @
       map (\<lambda>line. join [CHR 0x09] (map g line))
         (map (undo_row (map (\<lambda>idx. par_log (par_of params idx)) idxs) 0)
           (map2 (@) (concat (data3 c)) (map (\<lambda>x. [- x * 2]) (concat (data2 l))))),
     None)"
proof -
  let ?st = "\<lparr>nrows = shape0 c * shape1 c, ncols = shape2 c + 1,
              data2 = map2 (@) (concat (data3 c)) (map (\<lambda>x. [- x * 2]) (concat (data2 l)))\<rparr>"
  have w: "nrows l = shape0 c" "ncols l = shape1 c"
    using assms(5) by (simp_all add: buffers_ok_def)
  have rl: "reshape_lnprob l (shape0 c * shape1 c) =
    Inr \<lparr>nrows = shape0 c * shape1 c, ncols = 1, data2 = map (\<lambda>x. [- x * 2]) (concat (data2 l))\<rparr>"
    using w by (simp add: reshape_lnprob_def)
  have cs: "column_stack (reshape_chain c)
      \<lparr>nrows = shape0 c * shape1 c, ncols = 1, data2 = map (\<lambda>x. [- x * 2]) (concat (data2 l))\<rparr>
      = Inr ?st"
    by (simp add: column_stack_def concatenate2_def reshape_chain_def)
  have ul: "undo_log params (length s) 0 idxs (s @ [A2 ?st]) =
     Inr ((s @ [A2 ?st])[length s := A2 (?st\<lparr>data2 :=
        map (undo_row (map (\<lambda>idx. par_log (par_of params idx)) idxs) 0) (data2 ?st)\<rparr>)])"
    using assms(6,7) by (intro undo_log_ok) simp_all
  have hl: "header_labels params idxs = Inr (map (label_of params) idxs)"
    using assms(7) by (rule header_labels_ok)
  show ?thesis
    using assms(1-4) rl cs ul hl
    by (simp add: writeXSpecChain_def Let_def)
qed

text \<open>Whatever the exporter is given, the objects that were in the store stay as they were.\<close>

lemma writeXSpecChain_frame:
  assumes "writeXSpecChain g chain lnprob params idxs s = (s', written, err)"
  shows "length s \<le> length s' \<and> (\<forall>a < length s. s' ! a = s ! a)"
proof -
  have u: "length s2 = Suc (length s) \<and> (\<forall>a < length s. s2 ! a = s ! a)"
    if "undo_log params (length s) 0 idxs (s @ [x]) = Inr s2" for s2 x
    using undo_log_frame[OF that] by (auto simp: nth_append)
  show ?thesis
    using assms u
    by (auto simp: writeXSpecChain_def Let_def nth_append
             split: if_splits ndarray.splits sum.splits prod.splits)
qed

section \<open>Properties of doMCMC\<close>

lemma sampler_ok_mono: "sampler_ok gen n nw nd \<Longrightarrow> m \<le> n \<Longrightarrow> sampler_ok gen m nw nd"
  by (auto simp: sampler_ok_def list_all_iff)

lemma doMCMC_interrupted:
  assumes init: "doMCMC_init c e = (tr, Inr ini)" and ck: "checkpoint_ok c e"
    and smp: "sampler_ok (sample e (i_pos ini) (i_state ini)) (items_taken (j, ph))
                (nat (nwalkers c)) (shape2 (i_chain ini))"
    and intr: "interrupt_at e = Some (j, ph)" "int (i_start ini) + int j < niters c"
  shows "\<exists>evs ch lp r.
      doMCMC c e = (tr @ evs @ [WroteNpz (outnpz c) ch lp], Inr r) \<and>
      list_all (\<lambda>ev. \<not> is_export ev) (tr @ evs) \<and>
      r_interrupted r \<and> r_index r = i_start ini + steps_done (j, ph) \<and>
      buffers_ok ch lp \<and> shape0 ch = nat (nwalkers c) \<and> shape1 ch = i_start ini + steps_done (j, ph) \<and>
      shape2 ch = shape2 (i_chain ini) \<and>
      data3 ch = map (take (i_start ini + steps_done (j, ph))) (data3 (r_chain r)) \<and>
      data2 lp = map (take (i_start ini + steps_done (j, ph))) (data2 (r_lnprob r)) \<and>
      (\<forall>k \<le> i_start ini.
          map (take k) (data3 (r_chain r)) = map (take k) (data3 (i_chain ini)) \<and>
          map (take k) (data2 (r_lnprob r)) = map (take k) (data2 (i_lnprob ini)))"
proof -
  note d = doMCMC_init_InrD[OF init ck]
  let ?st0 = "\<lparr>st_chain = i_chain ini, st_lnprob = i_lnprob ini, st_index = i_start ini,
               st_lastsave = time_time e 0, st_ticks = 1, st_trace = tr\<rparr>"
  let ?n = "nat (niters c - int (i_start ini))"
  have b0: "buffers_ok (st_chain ?st0) (st_lnprob ?st0)" using d by simp
  have "i_start ini + ?n \<le> nat (niters c)" using d by linarith
  then have n: "st_index ?st0 + ?n \<le> shape1 (st_chain ?st0)" using d by simp
  have s0: "sampler_ok (sample e (i_pos ini) (i_state ini)) (items_taken (j, ph))
              (shape0 (st_chain ?st0)) (shape2 (st_chain ?st0))"
    using smp d by simp
  have j: "0 \<le> j" "j < 0 + ?n" using intr(2) by simp_all
  obtain st where l: "sample_loop c e (sample e (i_pos ini) (i_state ini)) 0 ?n ?st0 = (Interrupted, st)"
    and a: "advances (steps_done (j, ph) - 0) ?st0 st"
    using sample_loop_interrupted[OF b0 n s0 intr(1) j, of c] by blast
  obtain evs where tr: "st_trace st = tr @ evs" "list_all (\<lambda>ev. \<not> is_export ev) evs"
    using a by (auto simp: advances_def)
  have sh: "buffers_ok (st_chain st) (st_lnprob st)" "shape0 (st_chain st) = nat (nwalkers c)"
    "shape1 (st_chain st) = nat (niters c)" "shape2 (st_chain st) = shape2 (i_chain ini)"
    "st_index st = i_start ini + steps_done (j, ph)"
    using a d by (simp_all add: advances_def)
  have pre: "\<forall>k \<le> i_start ini.
      map (take k) (data3 (st_chain st)) = map (take k) (data3 (i_chain ini)) \<and>
      map (take k) (data2 (st_lnprob st)) = map (take k) (data2 (i_lnprob ini))"
    using a by (simp add: advances_def)
  have sd: "steps_done (j, ph) \<le> Suc j" by (simp add: steps_done_def)
  have m: "0 \<le> int (st_index st)" "int (st_index st) \<le> int (nat (niters c))"
    using sh(5) intr(2) sd by simp_all
  obtain ch lp where w: "writeNpz (outnpz c) (st_chain st) (st_lnprob st) (int (st_index st))
        = WroteNpz (outnpz c) ch lp"
      "wf3 ch" "shape0 ch = shape0 (st_chain st)" "shape1 ch = nat (int (st_index st))"
      "shape2 ch = shape2 (st_chain st)" "wf2 lp" "nrows lp = shape0 (st_chain st)"
      "ncols lp = nat (int (st_index st))"
      "data3 ch = map (take (nat (int (st_index st)))) (data3 (st_chain st))"
      "data2 lp = map (take (nat (int (st_index st)))) (data2 (st_lnprob st))"
    using writeNpz_prefix[OF sh(1) sh(3) m, of "outnpz c"] by blast
  have bo: "buffers_ok ch lp" using w by (simp add: buffers_ok_def)
  have il: "list_all (\<lambda>ev. \<not> is_export ev) tr" using d by (simp add: list_all_iff)
  have "doMCMC c e = (tr @ evs @ [WroteNpz (outnpz c) ch lp],
          Inr \<lparr>r_interrupted = True, r_chain = st_chain st,
               r_lnprob = st_lnprob st, r_index = st_index st\<rparr>)"
    using init l tr(1) w(1) by (simp add: doMCMC_def)
  with tr(2) il bo w sh pre show ?thesis by (simp add: nat_add_distrib)
qed

lemma doMCMC_completed:
  assumes init: "doMCMC_init c e = (tr, Inr ini)" and ck: "checkpoint_ok c e"
    and smp: "sampler_ok (sample e (i_pos ini) (i_state ini)) (nat (niters c) - i_start ini)
                (nat (nwalkers c)) (shape2 (i_chain ini))"
    and intr: "\<forall>j ph. interrupt_at e = Some (j, ph) \<longrightarrow> niters c \<le> int (i_start ini) + int j"
    and pool: "pool_ok (i_pool ini) (shape2 (i_chain ini))"
  shows "\<exists>evs written ch lp.
      doMCMC c e = (tr @ evs @ [WroteChain (outchain c) written, WroteNpz (outnpz c) ch lp],
                    Inr \<lparr>r_interrupted = False, r_chain = ch, r_lnprob = lp,
                         r_index = nat (niters c)\<rparr>) \<and>
      list_all (\<lambda>ev. \<not> is_export ev) (tr @ evs) \<and>
      buffers_ok ch lp \<and> shape0 ch = nat (nwalkers c) \<and> shape1 ch = nat (niters c) \<and>
      shape2 ch = shape2 (i_chain ini) \<and>
      fst (snd (writeXSpecChain (fmt_g e) 0 1 (parlist (i_pool ini)) (paridxs (i_pool ini))
                 [A3 ch, A2 lp])) = written \<and>
      (\<forall>k \<le> i_start ini.
          map (take k) (data3 ch) = map (take k) (data3 (i_chain ini)) \<and>
          map (take k) (data2 lp) = map (take k) (data2 (i_lnprob ini)))"
proof -
  note d = doMCMC_init_InrD[OF init ck]
  let ?st0 = "\<lparr>st_chain = i_chain ini, st_lnprob = i_lnprob ini, st_index = i_start ini,
               st_lastsave = time_time e 0, st_ticks = 1, st_trace = tr\<rparr>"
  let ?n = "nat (niters c - int (i_start ini))"
  have nn: "?n = nat (niters c) - i_start ini" "i_start ini + ?n = nat (niters c)"
    using d by linarith+
  have b0: "buffers_ok (st_chain ?st0) (st_lnprob ?st0)" using d by simp
  have n: "st_index ?st0 + ?n \<le> shape1 (st_chain ?st0)" using d nn by simp
  have s0: "sampler_ok (sample e (i_pos ini) (i_state ini)) (0 + ?n)
              (shape0 (st_chain ?st0)) (shape2 (st_chain ?st0))"
    using smp d nn by simp
  have ni: "\<forall>j ph. interrupt_at e = Some (j, ph) \<longrightarrow> j < 0 \<or> 0 + ?n \<le> j"
    using intr d by auto
  obtain st where l: "sample_loop c e (sample e (i_pos ini) (i_state ini)) 0 ?n ?st0 = (Exhausted, st)"
    and a: "advances ?n ?st0 st"
    using sample_loop_exhausted[OF b0 n s0 ni, of c] by blast
  obtain evs where tr: "st_trace st = tr @ evs" "list_all (\<lambda>ev. \<not> is_export ev) evs"
    using a by (auto simp: advances_def)
  have sh: "buffers_ok (st_chain st) (st_lnprob st)" "shape0 (st_chain st) = nat (nwalkers c)"
    "shape1 (st_chain st) = nat (niters c)" "shape2 (st_chain st) = shape2 (i_chain ini)"
    "st_index st = nat (niters c)"
    using a d nn by (simp_all add: advances_def)
  have pre: "\<forall>k \<le> i_start ini.
      map (take k) (data3 (st_chain st)) = map (take k) (data3 (i_chain ini)) \<and>
      map (take k) (data2 (st_lnprob st)) = map (take k) (data2 (i_lnprob ini))"
    using a by (simp add: advances_def)
  have po: "length (paridxs (i_pool ini)) = shape2 (st_chain st)"
    "list_all (\<lambda>idx. 1 \<le> idx \<and> idx \<le> int (length (parlist (i_pool ini)))) (paridxs (i_pool ini))"
    using pool sh(4) by (simp_all add: pool_ok_def)
  let ?s = "[A3 (st_chain st), A2 (st_lnprob st)]"
  obtain out written where x: "writeXSpecChain (fmt_g e) 0 1 (parlist (i_pool ini))
        (paridxs (i_pool ini)) ?s = (?s @ [A2 out], written, None)"
    using writeXSpecChain_ok[of 0 ?s 1 "st_chain st" "st_lnprob st" "paridxs (i_pool ini)"
        "parlist (i_pool ini)" "fmt_g e"] sh(1) po
    by simp
  have w: "writeNpz (outnpz c) (st_chain st) (st_lnprob st) (int (st_index st))
        = WroteNpz (outnpz c) (st_chain st) (st_lnprob st)"
    using sh by (simp add: writeNpz_def)
  have il: "list_all (\<lambda>ev. \<not> is_export ev) tr" using d by (simp add: list_all_iff)
  have "doMCMC c e = (tr @ evs @ [WroteChain (outchain c) written,
                                  WroteNpz (outnpz c) (st_chain st) (st_lnprob st)],
          Inr \<lparr>r_interrupted = False, r_chain = st_chain st,
               r_lnprob = st_lnprob st, r_index = nat (niters c)\<rparr>)"
    using init l tr(1) w x sh(5) by (simp add: doMCMC_def)
  with tr(2) il sh pre x show ?thesis by simp
qed

lemma continue_from_ok:
  assumes "load_npz e (outnpz c) = Some (ch, lp)" "buffers_ok ch lp"
    "0 < shape1 ch" "int (shape1 ch) \<le> niters c" "int (shape0 ch) = nwalkers c" "shape2 ch = nd"
  shows "\<exists>pos chain lnprob start. continue_from c e nd = Inr (pos, chain, lnprob, start)"
proof -
  have w: "nrows lp = shape0 ch" using assms(2) by (simp add: buffers_ok_def)
  obtain bc where bc: "zeros3 (nwalkers c) (niters c - int (shape1 ch)) (int nd) = Inr bc"
    "shape0 bc = shape0 ch" "shape2 bc = nd"
    using assms(4,5) by (auto simp: zeros3_def)
  obtain bp where bp: "zeros2 (nwalkers c) (niters c - int (shape1 ch)) = Inr bp"
    "nrows bp = shape0 ch"
    using assms(4,5) by (auto simp: zeros2_def)
  have "last_iteration ch = Inr (map last (data3 ch))"
    using assms(3) by (simp add: last_iteration_def)
  moreover have "\<exists>x. concatenate3 ch bc = Inr x"
    using bc assms(6) by (simp add: concatenate3_def)
  moreover have "\<exists>x. concatenate2 lp bp = Inr x"
    using bp w by (simp add: concatenate2_def)
  ultimately show ?thesis
    using assms(1) bc(1) bp(1) by (auto simp: continue_from_def)
qed

text \<open>
  An interrupt before the first iteration is done leaves a checkpoint without
  iterations.
\<close>

lemma interrupt_at_once_leaves_empty_checkpoint:
  "fst (doMCMC example_config (example_env\<lparr>interrupt_at := Some (0, Waiting)\<rparr>)) =
     [WroteNpz ''out.npz'' (fst empty_checkpoint) (snd empty_checkpoint)]"
  by code_simp

text \<open>
  C1, as stated: every resumed run whose checkpoint holds \<open>X\<close> filled iterations, with
  \<open>niters\<close> at least \<open>X\<close>, starts from the checkpoint.  For \<open>X = 0\<close> (the checkpoint an
  interrupt leaves before the first iteration is done) there is no last iteration to
  start from: reading it raises \<^verbatim>\<open>IndexError\<close> and the run ends there.
\<close>

theorem resume_empty_checkpoint_counterexample:
  "continuerun (example_config\<lparr>continuerun := True\<rparr>) \<and>
   load_npz (example_env\<lparr>load_npz := (\<lambda>f. Some empty_checkpoint)\<rparr>)
     (outnpz (example_config\<lparr>continuerun := True\<rparr>)) = Some empty_checkpoint \<and>
   buffers_ok (fst empty_checkpoint) (snd empty_checkpoint) \<and>
   shape0 (fst empty_checkpoint) = 2 \<and> shape1 (fst empty_checkpoint) = 0 \<and>
   shape2 (fst empty_checkpoint) = 1 \<and>
   int (shape1 (fst empty_checkpoint)) \<le> niters (example_config\<lparr>continuerun := True\<rparr>) \<and>
   doMCMC_init (example_config\<lparr>continuerun := True\<rparr>)
     (example_env\<lparr>load_npz := (\<lambda>f. Some empty_checkpoint)\<rparr>) = ([], Inl IndexError) \<and>
   doMCMC (example_config\<lparr>continuerun := True\<rparr>)
     (example_env\<lparr>load_npz := (\<lambda>f. Some empty_checkpoint)\<rparr>) = ([], Inl IndexError)"
  by code_simp

text \<open>
  C1, amended: for every resumed run whose checkpoint holds \<open>X \<ge> 1\<close> filled iterations
  of the walker count and parameter count of this run, with \<open>niters \<ge> X\<close>: the cursor
  starts at \<open>X\<close>; the buffers are the checkpoint's with \<open>niters - X\<close> zero iterations
  appended to every walker, so of capacity \<open>niters\<close>; the starting population is, walker
  by walker, the last iteration of the checkpoint; and, the sampler yielding every
  item and the pool describing the columns, the run ends (completed or interrupted)
  with a chain and log-probabilities whose first \<open>X\<close> iterations are the checkpoint's.
\<close>

theorem resume_continues_checkpoint:
  assumes "continuerun c" and "load_npz e (outnpz c) = Some (ch, lp)" and "buffers_ok ch lp"
    and "0 < shape1 ch" and "int (shape1 ch) \<le> niters c"
    and "int (shape0 ch) = nwalkers c"
    and "initial_positions c e (xspec_pool e (expandSystems (systems c))) = row # rest"
    and "shape2 ch = length row"
    and "sampler_ok (sample e (map last (data3 ch)) None) (nat (niters c) - shape1 ch)
           (shape0 ch) (shape2 ch)"
    and "pool_ok (xspec_pool e (expandSystems (systems c))) (shape2 ch)"
  shows "\<exists>ini tr r.
      doMCMC_init c e = ([], Inr ini) \<and>
      i_start ini = shape1 ch \<and>
      shape0 (i_chain ini) = shape0 ch \<and> shape1 (i_chain ini) = nat (niters c) \<and>
      shape2 (i_chain ini) = shape2 ch \<and>
      data3 (i_chain ini) =
        map (\<lambda>w. w @ replicate (nat (niters c) - shape1 ch) (replicate (shape2 ch) 0)) (data3 ch) \<and>
      nrows (i_lnprob ini) = shape0 ch \<and> ncols (i_lnprob ini) = nat (niters c) \<and>
      data2 (i_lnprob ini) = map (\<lambda>w. w @ replicate (nat (niters c) - shape1 ch) 0) (data2 lp) \<and>
      length (i_pos ini) = shape0 ch \<and>
      (\<forall>w < shape0 ch. i_pos ini ! w = data3 ch ! w ! (shape1 ch - 1)) \<and>
      doMCMC c e = (tr, Inr r) \<and>
      map (take (shape1 ch)) (data3 (r_chain r)) = data3 ch \<and>
      map (take (shape1 ch)) (data2 (r_lnprob r)) = data2 lp"
proof -
  let ?X = "shape1 ch" and ?pl = "xspec_pool e (expandSystems (systems c))"
  have w: "wf3 ch" "wf2 lp" "nrows lp = shape0 ch" "ncols lp = shape1 ch"
    using assms(3) by (simp_all add: buffers_ok_def)
  have ck: "checkpoint_ok c e" using assms(2,3) by (simp add: checkpoint_ok_def)
  obtain pos chain lnprob start where
    cf: "continue_from c e (length row) = Inr (pos, chain, lnprob, start)"
    using continue_from_ok[OF assms(2,3,4,5,6,8)] by blast
  note d = continue_from_InrD[OF cf assms(2,3)]
  let ?ini = "\<lparr>i_pool = ?pl, i_pos = pos, i_state = None, i_chain = chain,
               i_lnprob = lnprob, i_start = start\<rparr>"
  have init: "doMCMC_init c e = ([], Inr ?ini)"
    using assms(1,7) cf by (simp add: doMCMC_init_def)
  have st: "start = ?X" and pos: "pos = map last (data3 ch)" using d by simp_all
  have chain: "shape0 chain = shape0 ch" "shape1 chain = nat (niters c)" "shape2 chain = shape2 ch"
    "data3 chain = map (\<lambda>w. w @ replicate (nat (niters c) - ?X) (replicate (shape2 ch) 0)) (data3 ch)"
    using d assms(8) by simp_all
  have lnprob: "nrows lnprob = shape0 ch" "ncols lnprob = nat (niters c)"
    "data2 lnprob = map (\<lambda>w. w @ replicate (nat (niters c) - ?X) 0) (data2 lp)"
    using d w by simp_all
  have rows3: "\<forall>r \<in> set (data3 ch). length r = ?X" and len3: "length (data3 ch) = shape0 ch"
    using w(1) by (simp_all add: wf3_def list_all_iff)
  have rows2: "\<forall>r \<in> set (data2 lp). length r = ?X" and len2: "length (data2 lp) = shape0 ch"
    using w(2,3,4) by (simp_all add: wf2_def list_all_iff)
  have plen: "length pos = shape0 ch" using pos len3 by simp
  have pnth: "\<forall>w < shape0 ch. pos ! w = data3 ch ! w ! (?X - 1)"
  proof (intro allI impI)
    fix k assume k: "k < shape0 ch"
    then have "data3 ch ! k \<in> set (data3 ch)" using len3 by simp
    then have l: "length (data3 ch ! k) = ?X" using rows3 by blast
    then have "data3 ch ! k \<noteq> []" using assms(4) by auto
    then have "last (data3 ch ! k) = data3 ch ! k ! (?X - 1)"
      using l by (simp add: last_conv_nth)
    then show "pos ! k = data3 ch ! k ! (?X - 1)" using pos k len3 by simp
  qed
  have pre3: "map (take ?X) (data3 chain) = data3 ch"
    using rows3 by (simp add: chain(4) map_idI)
  have pre2: "map (take ?X) (data2 lnprob) = data2 lp"
    using rows2 by (simp add: lnprob(3) map_idI)
  have nw: "nat (nwalkers c) = shape0 ch" using assms(6) by (simp flip: assms(6))
  have "\<exists>tr r. doMCMC c e = (tr, Inr r) \<and>
      (\<forall>k \<le> ?X. map (take k) (data3 (r_chain r)) = map (take k) (data3 chain) \<and>
                 map (take k) (data2 (r_lnprob r)) = map (take k) (data2 lnprob))"
  proof (cases "\<exists>j ph. interrupt_at e = Some (j, ph) \<and> int ?X + int j < niters c")
    case True
    then obtain j ph where j: "interrupt_at e = Some (j, ph)"
      "int (i_start ?ini) + int j < niters c"
      using st by auto
    then have "int ?X + int j < niters c" using st by simp
    then have "Suc j \<le> nat (niters c) - ?X" by linarith
    moreover have "items_taken (j, ph) \<le> Suc j" by (simp add: items_taken_def)
    ultimately have "items_taken (j, ph) \<le> nat (niters c) - ?X" by simp
    then have s: "sampler_ok (sample e (i_pos ?ini) (i_state ?ini)) (items_taken (j, ph))
                (nat (nwalkers c)) (shape2 (i_chain ?ini))"
      using sampler_ok_mono[OF assms(9)] pos chain nw by simp
    from doMCMC_interrupted[OF init ck s j] st show ?thesis by fastforce
  next
    case False
    then have ni: "\<forall>j ph. interrupt_at e = Some (j, ph) \<longrightarrow>
                     niters c \<le> int (i_start ?ini) + int j"
      using st by auto
    have s: "sampler_ok (sample e (i_pos ?ini) (i_state ?ini)) (nat (niters c) - i_start ?ini)
                (nat (nwalkers c)) (shape2 (i_chain ?ini))"
      using assms(9) pos chain nw st by simp
    have p: "pool_ok (i_pool ?ini) (shape2 (i_chain ?ini))"
      using assms(10) chain by simp
    from doMCMC_completed[OF init ck s ni p] st show ?thesis by fastforce
  qed
  then obtain tr r where r: "doMCMC c e = (tr, Inr r)"
    "map (take ?X) (data3 (r_chain r)) = map (take ?X) (data3 chain)"
    "map (take ?X) (data2 (r_lnprob r)) = map (take ?X) (data2 lnprob)"
    by blast
  have "i_start ?ini = ?X" "i_chain ?ini = chain" "i_lnprob ?ini = lnprob" "i_pos ?ini = pos"
    using st by simp_all
  with init chain lnprob plen pnth r pre3 pre2 show ?thesis by metis
qed

text \<open>
  Scenario C of the specification in small: the checkpoint of one iteration is resumed
  with two iterations requested.
\<close>

theorem resume_continues_checkpoint_witness:
  "\<exists>ini tr r.
     doMCMC_init (example_config\<lparr>continuerun := True\<rparr>)
       (example_env\<lparr>load_npz := (\<lambda>f. Some example_checkpoint)\<rparr>) = ([], Inr ini) \<and>
     i_start ini = 1 \<and> shape1 (i_chain ini) = 2 \<and>
     data3 (i_chain ini) = [[[5], [0]], [[6], [0]]] \<and>
     data2 (i_lnprob ini) = [[-1, 0], [-2, 0]] \<and>
     i_pos ini ! 0 = [5] \<and> i_pos ini ! 1 = [6] \<and>
     doMCMC (example_config\<lparr>continuerun := True\<rparr>)
       (example_env\<lparr>load_npz := (\<lambda>f. Some example_checkpoint)\<rparr>) = (tr, Inr r) \<and>
     map (take 1) (data3 (r_chain r)) = [[[5]], [[6]]] \<and>
     map (take 1) (data2 (r_lnprob r)) = [[-1], [-2]]"
proof -
  let ?c = "example_config\<lparr>continuerun := True\<rparr>"
  let ?e = "example_env\<lparr>load_npz := (\<lambda>f. Some example_checkpoint)\<rparr>"
  let ?ch = "fst example_checkpoint" and ?lp = "snd example_checkpoint"
  have h1: "continuerun ?c" by simp
  have h2: "load_npz ?e (outnpz ?c) = Some (?ch, ?lp)" by simp
  have h3: "buffers_ok ?ch ?lp"
    by (simp add: buffers_ok_def wf3_def wf2_def example_checkpoint_def)
  have h4: "0 < shape1 ?ch" by (simp add: example_checkpoint_def)
  have h5: "int (shape1 ?ch) \<le> niters ?c" by (simp add: example_checkpoint_def example_config_def)
  have h6: "int (shape0 ?ch) = nwalkers ?c" by (simp add: example_checkpoint_def example_config_def)
  have h7: "initial_positions ?c ?e (xspec_pool ?e (expandSystems (systems ?c))) = [1] # [[1]]"
    by (simp add: initial_positions_def example_config_def example_env_def example_pool_def
        getInitialParameters_def example_par_def np_clip_def numeral_2_eq_2)
  have h8: "shape2 ?ch = length [1::real]" by (simp add: example_checkpoint_def)
  have h9: "sampler_ok (sample ?e (map last (data3 ?ch)) None) (nat (niters ?c) - shape1 ?ch)
           (shape0 ?ch) (shape2 ?ch)"
    by (simp add: sampler_ok_def example_env_def example_config_def example_checkpoint_def
        list_all_iff)
  have h10: "pool_ok (xspec_pool ?e (expandSystems (systems ?c))) (shape2 ?ch)"
    by (simp add: pool_ok_def example_env_def example_pool_def example_checkpoint_def)
  from resume_continues_checkpoint[OF h1 h2 h3 h4 h5 h6 h7 h8 h9 h10]
  obtain ini tr r where
    "doMCMC_init ?c ?e = ([], Inr ini)" "i_start ini = shape1 ?ch"
    "shape1 (i_chain ini) = nat (niters ?c)"
    "data3 (i_chain ini) =
       map (\<lambda>w. w @ replicate (nat (niters ?c) - shape1 ?ch) (replicate (shape2 ?ch) 0)) (data3 ?ch)"
    "data2 (i_lnprob ini) = map (\<lambda>w. w @ replicate (nat (niters ?c) - shape1 ?ch) 0) (data2 ?lp)"
    "\<forall>w < shape0 ?ch. i_pos ini ! w = data3 ?ch ! w ! (shape1 ?ch - 1)"
    "doMCMC ?c ?e = (tr, Inr r)"
    "map (take (shape1 ?ch)) (data3 (r_chain r)) = data3 ?ch"
    "map (take (shape1 ?ch)) (data2 (r_lnprob r)) = data2 ?lp"
    by blast
  then have "doMCMC_init ?c ?e = ([], Inr ini) \<and>
     i_start ini = 1 \<and> shape1 (i_chain ini) = 2 \<and>
     data3 (i_chain ini) = [[[5], [0]], [[6], [0]]] \<and>
     data2 (i_lnprob ini) = [[-1, 0], [-2, 0]] \<and>
     i_pos ini ! 0 = [5] \<and> i_pos ini ! 1 = [6] \<and>
     doMCMC ?c ?e = (tr, Inr r) \<and>
     map (take 1) (data3 (r_chain r)) = [[[5]], [[6]]] \<and>
     map (take 1) (data2 (r_lnprob r)) = [[-1], [-2]]"
    by (simp add: example_checkpoint_def example_config_def)
  then show ?thesis by - (intro exI, assumption)
qed


text \<open>
  C3.  When the interrupt arrives during sampling, in pass \<open>j\<close> of the loop and at any
  point of that pass, with \<open>k\<close> the cursor at that moment (the start plus the passes
  that have moved the cursor on), the run ends by writing one checkpoint and nothing
  after it; the checkpoint's chain has shape \<open>(nwalkers, k, ndims)\<close> and holds the first
  \<open>k\<close> iterations of the buffer, and no event of the run writes the text chain file.
\<close>

theorem interrupted_run_checkpoint_only:
  assumes "doMCMC_init c e = (tr, Inr ini)" and "checkpoint_ok c e"
    and "sampler_ok (sample e (i_pos ini) (i_state ini)) (items_taken (j, ph))
           (nat (nwalkers c)) (shape2 (i_chain ini))"
    and "interrupt_at e = Some (j, ph)" and "int (i_start ini) + int j < niters c"
  shows "\<exists>evs ch lp r.
      doMCMC c e = (evs @ [WroteNpz (outnpz c) ch lp], Inr r) \<and>
      list_all (\<lambda>ev. \<not> is_export ev) (evs @ [WroteNpz (outnpz c) ch lp]) \<and>
      r_interrupted r \<and> r_index r = i_start ini + steps_done (j, ph) \<and>
      wf3 ch \<and> shape0 ch = nat (nwalkers c) \<and> shape1 ch = i_start ini + steps_done (j, ph) \<and>
      shape2 ch = length (hd (initial_positions c e (xspec_pool e (expandSystems (systems c))))) \<and>
      wf2 lp \<and> nrows lp = nat (nwalkers c) \<and> ncols lp = i_start ini + steps_done (j, ph) \<and>
      data3 ch = map (take (i_start ini + steps_done (j, ph))) (data3 (r_chain r)) \<and>
      data2 lp = map (take (i_start ini + steps_done (j, ph))) (data2 (r_lnprob r))"
proof -
  from doMCMC_interrupted[OF assms]
  obtain evs ch lp r where
    r: "doMCMC c e = (tr @ evs @ [WroteNpz (outnpz c) ch lp], Inr r)"
    and n: "list_all (\<lambda>ev. \<not> is_export ev) (tr @ evs)"
    and p: "r_interrupted r" "r_index r = i_start ini + steps_done (j, ph)"
      "buffers_ok ch lp" "shape0 ch = nat (nwalkers c)"
      "shape1 ch = i_start ini + steps_done (j, ph)"
      "shape2 ch = shape2 (i_chain ini)"
      "data3 ch = map (take (i_start ini + steps_done (j, ph))) (data3 (r_chain r))"
      "data2 lp = map (take (i_start ini + steps_done (j, ph))) (data2 (r_lnprob r))"
    by blast
  have d: "shape2 (i_chain ini) =
      length (hd (initial_positions c e (xspec_pool e (expandSystems (systems c)))))"
    using doMCMC_init_InrD[OF assms(1,2)] by blast
  have "doMCMC c e = ((tr @ evs) @ [WroteNpz (outnpz c) ch lp], Inr r)" using r by simp
  moreover have "list_all (\<lambda>ev. \<not> is_export ev) ((tr @ evs) @ [WroteNpz (outnpz c) ch lp])"
    using n by simp
  moreover have "wf3 ch" "wf2 lp" "nrows lp = nat (nwalkers c)"
    "ncols lp = i_start ini + steps_done (j, ph)"
    using p by (simp_all add: buffers_ok_def)
  ultimately show ?thesis using p d by metis
qed

text \<open>
  Scenario B of the specification on two walkers and one parameter: the run is
  interrupted after 3 of 10 requested iterations, here in the middle of the fourth
  pass, when the new positions are in the chain buffer and the cursor has not moved.
\<close>

theorem interrupted_run_checkpoint_only_witness:
  "\<exists>evs ch lp r.
     doMCMC (example_config\<lparr>niters := 10\<rparr>) (example_env\<lparr>interrupt_at := Some (3, AfterChain)\<rparr>)
       = (evs @ [WroteNpz ''out.npz'' ch lp], Inr r) \<and>
     list_all (\<lambda>ev. \<not> is_export ev) (evs @ [WroteNpz ''out.npz'' ch lp]) \<and>
     r_interrupted r \<and> r_index r = 3 \<and> shape0 ch = 2 \<and> shape1 ch = 3 \<and> shape2 ch = 1"
proof -
  let ?c = "example_config\<lparr>niters := 10\<rparr>"
  let ?e = "example_env\<lparr>interrupt_at := Some (3, AfterChain)\<rparr>"
  let ?ini = "\<lparr>i_pool = example_pool, i_pos = [[1], [1]], i_state = None,
      i_chain = \<lparr>shape0 = 2, shape1 = 10, shape2 = 1,
                  data3 = replicate 2 (replicate 10 (replicate 1 0))\<rparr>,
      i_lnprob = \<lparr>nrows = 2, ncols = 10, data2 = replicate 2 (replicate 10 0)\<rparr>,
      i_start = 0\<rparr>"
  have p0: "initial_positions ?c ?e example_pool = [[1], [1]]"
    by (simp add: initial_positions_def example_config_def example_env_def example_pool_def
        getInitialParameters_def example_par_def np_clip_def numeral_2_eq_2)
  have i: "doMCMC_init ?c ?e = ([], Inr ?ini)"
    using p0 by (simp add: doMCMC_init_def example_config_def example_env_def zeros3_def zeros2_def)
  have k: "checkpoint_ok ?c ?e"
    by (simp add: checkpoint_ok_def example_env_def)
  have s: "sampler_ok (sample ?e (i_pos ?ini) (i_state ?ini)) (items_taken (3, AfterChain))
             (nat (nwalkers ?c)) (shape2 (i_chain ?ini))"
    by (simp add: sampler_ok_def example_env_def example_config_def list_all_iff)
  have a: "interrupt_at ?e = Some (3, AfterChain)" by simp
  have b: "int (i_start ?ini) + int 3 < niters ?c" by simp
  from interrupted_run_checkpoint_only[OF i k s a b]
  obtain evs ch lp r where
    "doMCMC ?c ?e = (evs @ [WroteNpz (outnpz ?c) ch lp], Inr r)"
    "list_all (\<lambda>ev. \<not> is_export ev) (evs @ [WroteNpz (outnpz ?c) ch lp])"
    "r_interrupted r" "r_index r = i_start ?ini + steps_done (3, AfterChain)"
    "shape0 ch = nat (nwalkers ?c)" "shape1 ch = i_start ?ini + steps_done (3, AfterChain)"
    "shape2 ch = length (hd (initial_positions ?c ?e
                   (xspec_pool ?e (expandSystems (systems ?c)))))"
    by blast
  then have "doMCMC ?c ?e = (evs @ [WroteNpz ''out.npz'' ch lp], Inr r) \<and>
     list_all (\<lambda>ev. \<not> is_export ev) (evs @ [WroteNpz ''out.npz'' ch lp]) \<and>
     r_interrupted r \<and> r_index r = 3 \<and> shape0 ch = 2 \<and> shape1 ch = 3 \<and> shape2 ch = 1"
    using p0 by (simp add: example_config_def example_env_def steps_done_def)
  then show ?thesis by blast
qed

text \<open>
  C4, as stated: a run that completes normally writes the final checkpoint first and
  the text chain after it.  The run of two walkers over two iterations writes the text
  chain first and the checkpoint last.
\<close>

theorem completed_run_checkpoint_first_counterexample:
  "fst (doMCMC example_config example_env) =
     [Step 0, Step 1,
      WroteChain ''out.dat''
        (chain_file_head @
         [''!Length: 4  Width: 2'', ''!1 kT keV Chi-Squared'',
          [CHR ''2'', CHR 0x09, CHR ''0''], [CHR ''3'', CHR 0x09, CHR ''2''],
          [CHR ''2'', CHR 0x09, CHR ''0''], [CHR ''3'', CHR 0x09, CHR ''2'']]),
      WroteNpz ''out.npz''
        \<lparr>shape0 = 2, shape1 = 2, shape2 = 1, data3 = [[[2], [3]], [[2], [3]]]\<rparr>
        \<lparr>nrows = 2, ncols = 2, data2 = [[0, - 1], [0, - 1]]\<rparr>] \<and>
   \<not> spec_checkpoint_then_export (fst (doMCMC example_config example_env))"
  by code_simp

text \<open>
  C4, amended: a run that completes normally (the initialisation goes through, the
  sampler yields every item, no interrupt arrives before the cursor reaches \<open>niters\<close>,
  the pool describes the columns of the chain) produces both artifacts, the text chain
  first and the final checkpoint after it, as its last two effects; the checkpoint
  holds the whole chain of \<open>niters\<close> iterations, and nothing before writes a text chain.
\<close>

theorem completed_run_export_then_checkpoint:
  assumes "doMCMC_init c e = (tr, Inr ini)" and "checkpoint_ok c e"
    and "sampler_ok (sample e (i_pos ini) (i_state ini)) (nat (niters c) - i_start ini)
           (nat (nwalkers c)) (shape2 (i_chain ini))"
    and "\<forall>j ph. interrupt_at e = Some (j, ph) \<longrightarrow> niters c \<le> int (i_start ini) + int j"
    and "pool_ok (i_pool ini) (shape2 (i_chain ini))"
  shows "\<exists>evs written ch lp r.
      doMCMC c e = (evs @ [WroteChain (outchain c) written, WroteNpz (outnpz c) ch lp], Inr r) \<and>
      list_all (\<lambda>ev. \<not> is_export ev) evs \<and>
      \<not> r_interrupted r \<and> r_index r = nat (niters c) \<and> r_chain r = ch \<and> r_lnprob r = lp \<and>
      buffers_ok ch lp \<and> shape0 ch = nat (nwalkers c) \<and> shape1 ch = nat (niters c) \<and>
      shape2 ch = shape2 (i_chain ini)"
proof -
  from doMCMC_completed[OF assms]
  obtain evs written ch lp where
    r: "doMCMC c e = (tr @ evs @ [WroteChain (outchain c) written, WroteNpz (outnpz c) ch lp],
                    Inr \<lparr>r_interrupted = False, r_chain = ch, r_lnprob = lp,
                         r_index = nat (niters c)\<rparr>)"
    and n: "list_all (\<lambda>ev. \<not> is_export ev) (tr @ evs)"
    and p: "buffers_ok ch lp" "shape0 ch = nat (nwalkers c)" "shape1 ch = nat (niters c)"
      "shape2 ch = shape2 (i_chain ini)"
    by blast
  let ?r = "\<lparr>r_interrupted = False, r_chain = ch, r_lnprob = lp, r_index = nat (niters c)\<rparr>"
  have "doMCMC c e = ((tr @ evs) @ [WroteChain (outchain c) written, WroteNpz (outnpz c) ch lp],
                      Inr ?r)"
    using r by simp
  moreover have "\<not> r_interrupted ?r" "r_index ?r = nat (niters c)" "r_chain ?r = ch"
    "r_lnprob ?r = lp" by simp_all
  ultimately show ?thesis using n p by blast
qed

theorem completed_run_export_then_checkpoint_witness:
  "\<exists>evs written ch lp r.
      doMCMC example_config example_env
        = (evs @ [WroteChain ''out.dat'' written, WroteNpz ''out.npz'' ch lp], Inr r) \<and>
      list_all (\<lambda>ev. \<not> is_export ev) evs \<and>
      \<not> r_interrupted r \<and> r_index r = 2 \<and> shape0 ch = 2 \<and> shape1 ch = 2 \<and> shape2 ch = 1"
proof -
  let ?c = "example_config" and ?e = "example_env"
  let ?ini = "\<lparr>i_pool = example_pool, i_pos = [[1], [1]], i_state = None,
      i_chain = \<lparr>shape0 = 2, shape1 = 2, shape2 = 1,
                  data3 = replicate 2 (replicate 2 (replicate 1 0))\<rparr>,
      i_lnprob = \<lparr>nrows = 2, ncols = 2, data2 = replicate 2 (replicate 2 0)\<rparr>,
      i_start = 0\<rparr>"
  have p0: "initial_positions ?c ?e example_pool = [[1], [1]]"
    by (simp add: initial_positions_def example_config_def example_env_def example_pool_def
        getInitialParameters_def example_par_def np_clip_def numeral_2_eq_2)
  have i: "doMCMC_init ?c ?e = ([], Inr ?ini)"
    using p0 by (simp add: doMCMC_init_def example_config_def example_env_def zeros3_def zeros2_def)
  have k: "checkpoint_ok ?c ?e"
    by (simp add: checkpoint_ok_def example_env_def)
  have s: "sampler_ok (sample ?e (i_pos ?ini) (i_state ?ini)) (nat (niters ?c) - i_start ?ini)
             (nat (nwalkers ?c)) (shape2 (i_chain ?ini))"
    by (simp add: sampler_ok_def example_env_def example_config_def list_all_iff)
  have a: "\<forall>j ph. interrupt_at ?e = Some (j, ph) \<longrightarrow> niters ?c \<le> int (i_start ?ini) + int j"
    by (simp add: example_env_def)
  have b: "pool_ok (i_pool ?ini) (shape2 (i_chain ?ini))"
    by (simp add: pool_ok_def example_pool_def)
  from completed_run_export_then_checkpoint[OF i k s a b]
  obtain evs written ch lp r where
    "doMCMC ?c ?e = (evs @ [WroteChain (outchain ?c) written, WroteNpz (outnpz ?c) ch lp], Inr r)"
    "list_all (\<lambda>ev. \<not> is_export ev) evs"
    "\<not> r_interrupted r" "r_index r = nat (niters ?c)"
    "shape0 ch = nat (nwalkers ?c)" "shape1 ch = nat (niters ?c)"
    "shape2 ch = shape2 (i_chain ?ini)"
    by blast
  then have "doMCMC ?c ?e = (evs @ [WroteChain ''out.dat'' written, WroteNpz ''out.npz'' ch lp], Inr r) \<and>
      list_all (\<lambda>ev. \<not> is_export ev) evs \<and>
      \<not> r_interrupted r \<and> r_index r = 2 \<and> shape0 ch = 2 \<and> shape1 ch = 2 \<and> shape2 ch = 1"
    by (simp add: example_config_def)
  then show ?thesis by blast
qed

text \<open>
  C5, as stated: a resume with \<open>niters\<close> less than or equal to the filled length of the
  checkpoint fails before any sampling and creates nothing.  With \<open>niters\<close> equal to the
  filled length (one iteration in the checkpoint, one requested) the run does not
  fail: it samples nothing, writes the text chain and writes the checkpoint again.
\<close>

theorem resume_equal_length_counterexample:
  "continuerun (example_config\<lparr>continuerun := True, niters := 1\<rparr>) \<and>
   load_npz (example_env\<lparr>load_npz := (\<lambda>f. Some example_checkpoint)\<rparr>)
     (outnpz (example_config\<lparr>continuerun := True, niters := 1\<rparr>)) = Some example_checkpoint \<and>
   niters (example_config\<lparr>continuerun := True, niters := 1\<rparr>)
     \<le> int (shape1 (fst example_checkpoint)) \<and>
   doMCMC (example_config\<lparr>continuerun := True, niters := 1\<rparr>)
          (example_env\<lparr>load_npz := (\<lambda>f. Some example_checkpoint)\<rparr>) =
     ([WroteChain ''out.dat''
         (chain_file_head @
          [''!Length: 2  Width: 2'', ''!1 kT keV Chi-Squared'',
           [CHR ''5'', CHR 0x09, CHR ''2''], [CHR ''6'', CHR 0x09, CHR ''4'']]),
       WroteNpz ''out.npz'' (fst example_checkpoint) (snd example_checkpoint)],
      Inr \<lparr>r_interrupted = False, r_chain = fst example_checkpoint,
           r_lnprob = snd example_checkpoint, r_index = 1\<rparr>)"
  by code_simp

text \<open>
  C5, amended: a resume with \<open>niters\<close> strictly less than the filled length of the
  checkpoint ends with an exception before any sampling step, and writes neither a
  checkpoint nor a text chain.
\<close>

theorem resume_below_filled_length_fails:
  assumes "continuerun c" and "load_npz e (outnpz c) = Some (ch, lp)"
    and "niters c < int (shape1 ch)"
  shows "\<exists>err. doMCMC c e = ([], Inl err)"
proof -
  have "\<exists>err. continue_from c e nd = Inl err" for nd
  proof (cases "shape1 ch = 0")
    case True
    then show ?thesis using assms(2) by (simp add: continue_from_def last_iteration_def)
  next
    case False
    have "zeros3 (nwalkers c) (niters c - int (shape1 ch)) (int nd) = Inl ValueError"
      using assms(3) by (simp add: zeros3_def)
    then show ?thesis
      using False assms(2) by (simp add: continue_from_def last_iteration_def)
  qed
  note cf = this
  have "\<exists>err. doMCMC_init c e = ([], Inl err)"
  proof (cases "initial_positions c e (xspec_pool e (expandSystems (systems c)))")
    case Nil
    then show ?thesis by (simp add: doMCMC_init_def)
  next
    case (Cons row rest)
    obtain err where "continue_from c e (length row) = Inl err" using cf by blast
    with Cons assms(1) show ?thesis by (simp add: doMCMC_init_def)
  qed
  then show ?thesis by (auto simp: doMCMC_def)
qed

theorem resume_below_filled_length_fails_witness:
  "continuerun (example_config\<lparr>continuerun := True, niters := 0\<rparr>) \<and>
   load_npz (example_env\<lparr>load_npz := (\<lambda>f. Some example_checkpoint)\<rparr>)
     (outnpz (example_config\<lparr>continuerun := True, niters := 0\<rparr>)) = Some example_checkpoint \<and>
   niters (example_config\<lparr>continuerun := True, niters := 0\<rparr>)
     < int (shape1 (fst example_checkpoint)) \<and>
   doMCMC (example_config\<lparr>continuerun := True, niters := 0\<rparr>)
          (example_env\<lparr>load_npz := (\<lambda>f. Some example_checkpoint)\<rparr>) = ([], Inl ValueError)"
proof -
  let ?c = "example_config\<lparr>continuerun := True, niters := 0\<rparr>"
  let ?e = "example_env\<lparr>load_npz := (\<lambda>f. Some example_checkpoint)\<rparr>"
  have h: "continuerun ?c"
    "load_npz ?e (outnpz ?c) = Some (fst example_checkpoint, snd example_checkpoint)"
    "niters ?c < int (shape1 (fst example_checkpoint))"
    by (simp_all add: example_checkpoint_def)
  from resume_below_filled_length_fails[OF h]
  obtain err where r: "doMCMC ?c ?e = ([], Inl err)" by blast
  have "doMCMC ?c ?e = ([], Inl ValueError)" by code_simp
  with h r show ?thesis by simp
qed

section \<open>The exported file\<close>

lemma undo_row_append:
  "length fs \<le> length v \<Longrightarrow> i + length fs \<le> length v \<Longrightarrow>
   undo_row fs i (v @ [x]) = undo_row fs i v @ [x]"
  by (induction fs arbitrary: i v) (simp_all add: list_update_append nth_append)

lemma undo_row_map2:
  assumes "length idxs = length v"
  shows "undo_row (map (\<lambda>idx. par_log (par_of params idx)) idxs) 0 v =
         map2 (\<lambda>idx x. if par_log (par_of params idx) then 10 powr x else x) idxs v"
proof (rule nth_equalityI)
  show "length (undo_row (map (\<lambda>idx. par_log (par_of params idx)) idxs) 0 v) =
        length (map2 (\<lambda>idx x. if par_log (par_of params idx) then 10 powr x else x) idxs v)"
    using assms by (simp add: undo_row_length)
next
  fix k assume "k < length (undo_row (map (\<lambda>idx. par_log (par_of params idx)) idxs) 0 v)"
  then have k: "k < length v" by (simp add: undo_row_length)
  then show "undo_row (map (\<lambda>idx. par_log (par_of params idx)) idxs) 0 v ! k =
        map2 (\<lambda>idx x. if par_log (par_of params idx) then 10 powr x else x) idxs v ! k"
    using assms by (simp add: undo_row_nth)
qed

text \<open>The rows of the exported table, one by one.\<close>

lemma exported_row:
  assumes "buffers_ok c l" "length idxs = shape2 c" "w < shape0 c" "i < shape1 c"
  shows "map (undo_row (map (\<lambda>idx. par_log (par_of params idx)) idxs) 0)
           (map2 (@) (concat (data3 c)) (map (\<lambda>x. [- x * 2]) (concat (data2 l))))
           ! (w * shape1 c + i)
         = map2 (\<lambda>idx x. if par_log (par_of params idx) then 10 powr x else x) idxs
             (data3 c ! w ! i) @ [- (data2 l ! w ! i) * 2]"
proof -
  let ?t = "map2 (@) (concat (data3 c)) (map (\<lambda>x. [- x * 2]) (concat (data2 l)))"
  have b: "w * shape1 c + i < shape0 c * shape1 c" using assms(3,4) by (rule row_index_bound)
  have len: "length ?t = shape0 c * shape1 c" using stacked_rows(1)[OF assms(1)] .
  have row: "?t ! (w * shape1 c + i) = data3 c ! w ! i @ [- (data2 l ! w ! i) * 2]"
    using stacked_rows(2)[OF assms(1,3,4)] .
  have wf: "wf3 c" using assms(1) by (simp add: buffers_ok_def)
  then have m: "data3 c ! w \<in> set (data3 c)" using assms(3) by (simp add: wf3_def)
  then have "length (data3 c ! w) = shape1 c" using wf by (simp add: wf3_def list_all_iff)
  then have "data3 c ! w ! i \<in> set (data3 c ! w)" using assms(4) by simp
  then have "length (data3 c ! w ! i) = shape2 c"
    using wf m by (simp add: wf3_def list_all_iff)
  then have v: "length idxs = length (data3 c ! w ! i)" using assms(2) by simp
  have "undo_row (map (\<lambda>idx. par_log (par_of params idx)) idxs) 0
          (data3 c ! w ! i @ [- (data2 l ! w ! i) * 2])
        = undo_row (map (\<lambda>idx. par_log (par_of params idx)) idxs) 0 (data3 c ! w ! i)
            @ [- (data2 l ! w ! i) * 2]"
    using v by (intro undo_row_append) simp_all
  also have "\<dots> = map2 (\<lambda>idx x. if par_log (par_of params idx) then 10 powr x else x) idxs
             (data3 c ! w ! i) @ [- (data2 l ! w ! i) * 2]"
    using undo_row_map2[OF v] by simp
  finally have e: "undo_row (map (\<lambda>idx. par_log (par_of params idx)) idxs) 0
          (data3 c ! w ! i @ [- (data2 l ! w ! i) * 2])
        = map2 (\<lambda>idx x. if par_log (par_of params idx) then 10 powr x else x) idxs
             (data3 c ! w ! i) @ [- (data2 l ! w ! i) * 2]" .
  have "w * shape1 c + i < length ?t" using b len by simp
  then have "map (undo_row (map (\<lambda>idx. par_log (par_of params idx)) idxs) 0) ?t
               ! (w * shape1 c + i)
             = undo_row (map (\<lambda>idx. par_log (par_of params idx)) idxs) 0
                 (?t ! (w * shape1 c + i))"
    by (rule nth_map)
  then show ?thesis unfolding row e .
qed

lemma export_lines:
  assumes "chain < length s" "lnprob < length s" "s ! chain = A3 c" "s ! lnprob = A2 l"
    "buffers_ok c l" "length idxs = shape2 c"
    "list_all (\<lambda>idx. 1 \<le> idx \<and> idx \<le> int (length params)) idxs"
  shows "\<exists>table lines.
     writeXSpecChain g chain lnprob params idxs s = (s @ [A2 table], lines, None) \<and>
     length (data2 table) = shape0 c * shape1 c \<and>
     length lines = 4 + shape0 c * shape1 c \<and>
     take 2 lines = chain_file_head \<and>
     lines ! 2 = ''!Length: '' @ fmt_i (int (shape0 c * shape1 c)) @ ''  Width: '' @
                 fmt_i (int (shape2 c) + 1) \<and>
     lines ! 3 = ''!'' @ join '' '' (map (label_of params) idxs @ [''Chi-Squared'']) \<and>
     (\<forall>w < shape0 c. \<forall>i < shape1 c.
        data2 table ! (w * shape1 c + i) =
          map2 (\<lambda>idx x. if par_log (par_of params idx) then 10 powr x else x) idxs
            (data3 c ! w ! i) @ [- (data2 l ! w ! i) * 2] \<and>
        lines ! (4 + w * shape1 c + i) =
          join [CHR 0x09] (map g (data2 table ! (w * shape1 c + i))))"
proof -
  let ?F = "map (\<lambda>idx. par_log (par_of params idx)) idxs"
  let ?t = "map2 (@) (concat (data3 c)) (map (\<lambda>x. [- x * 2]) (concat (data2 l)))"
  let ?rows = "map (undo_row ?F 0) ?t"
  let ?table = "\<lparr>nrows = shape0 c * shape1 c, ncols = shape2 c + 1, data2 = ?rows\<rparr>"
  let ?head = "chain_file_head @
       [''!Length: '' @ fmt_i (int (shape0 c * shape1 c)) @ ''  Width: '' @ fmt_i (int (shape2 c) + 1),
        ''!'' @ join '' '' (map (label_of params) idxs @ [''Chi-Squared''])]"
  let ?lines = "?head @ map (\<lambda>line. join [CHR 0x09] (map g line)) ?rows"
  have x: "writeXSpecChain g chain lnprob params idxs s = (s @ [A2 ?table], ?lines, None)"
    using writeXSpecChain_ok[OF assms] by simp
  have len: "length ?rows = shape0 c * shape1 c"
    using stacked_rows(1)[OF assms(5)] by simp
  have h: "length ?head = 4" by (simp add: chain_file_head_def)
  have r: "?rows ! (w * shape1 c + i) =
          map2 (\<lambda>idx x. if par_log (par_of params idx) then 10 powr x else x) idxs
            (data3 c ! w ! i) @ [- (data2 l ! w ! i) * 2] \<and>
        ?lines ! (4 + w * shape1 c + i) =
          join [CHR 0x09] (map g (?rows ! (w * shape1 c + i)))"
    if "w < shape0 c" "i < shape1 c" for w i
  proof -
    have b: "w * shape1 c + i < length ?rows" using that len by (simp add: row_index_bound)
    have "?lines ! (4 + w * shape1 c + i) =
          map (\<lambda>line. join [CHR 0x09] (map g line)) ?rows ! (w * shape1 c + i)"
      using h nth_append_length_plus[of ?head _ "w * shape1 c + i"] by (simp add: add.assoc)
    also have "\<dots> = join [CHR 0x09] (map g (?rows ! (w * shape1 c + i)))"
      using b by (rule nth_map)
    finally show ?thesis using exported_row[OF assms(5,6) that] by simp
  qed
  have "length ?lines = 4 + shape0 c * shape1 c" using h len by simp
  moreover have "take 2 ?lines = chain_file_head" by (simp add: chain_file_head_def)
  moreover have "?lines ! 2 = ''!Length: '' @ fmt_i (int (shape0 c * shape1 c)) @ ''  Width: '' @
                 fmt_i (int (shape2 c) + 1)"
    by (simp add: chain_file_head_def)
  moreover have "?lines ! 3 = ''!'' @ join '' '' (map (label_of params) idxs @ [''Chi-Squared''])"
    by (simp add: chain_file_head_def numeral_3_eq_3)
  moreover have "data2 ?table = ?rows" by simp
  ultimately show ?thesis using x len r by (intro exI[of _ ?table] exI[of _ ?lines]) simp
qed

text \<open>
  C6.  For buffers that belong together and a pool that lists one valid index per
  column: the exporter allocates its table as a new object and leaves the caller's
  chain and log-probability buffers as they were (the chain stays in log space).  In
  the row of walker \<open>w\<close> and iteration \<open>i\<close> of the table, the last column is \<open>-2\<close> times
  the log-probability of that sample, the column of a parameter flagged \<^verbatim>\<open>log\<close> is ten
  to the power of the chain's value, every other column is the chain's value, and the
  line written for the row is these numbers formatted and joined by tabs.
\<close>

theorem export_values_and_buffers:
  assumes "chain < length s" "lnprob < length s" "s ! chain = A3 c" "s ! lnprob = A2 l"
    "buffers_ok c l" "length idxs = shape2 c"
    "list_all (\<lambda>idx. 1 \<le> idx \<and> idx \<le> int (length params)) idxs"
  shows "\<exists>s' lines table.
     writeXSpecChain g chain lnprob params idxs s = (s', lines, None) \<and>
     s' = s @ [A2 table] \<and> s' ! chain = A3 c \<and> s' ! lnprob = A2 l \<and>
     (\<forall>w < shape0 c. \<forall>i < shape1 c.
        length (data2 table ! (w * shape1 c + i)) = shape2 c + 1 \<and>
        data2 table ! (w * shape1 c + i) ! shape2 c = - 2 * (data2 l ! w ! i) \<and>
        (\<forall>k < shape2 c.
           data2 table ! (w * shape1 c + i) ! k =
             (if par_log (par_of params (idxs ! k)) then 10 powr (data3 c ! w ! i ! k)
              else data3 c ! w ! i ! k)) \<and>
        lines ! (4 + w * shape1 c + i) =
          join [CHR 0x09] (map g (data2 table ! (w * shape1 c + i))))"
proof -
  from export_lines[OF assms, of g]
  obtain table lines where
    x: "writeXSpecChain g chain lnprob params idxs s = (s @ [A2 table], lines, None)"
    and r: "\<forall>w < shape0 c. \<forall>i < shape1 c.
        data2 table ! (w * shape1 c + i) =
          map2 (\<lambda>idx x. if par_log (par_of params idx) then 10 powr x else x) idxs
            (data3 c ! w ! i) @ [- (data2 l ! w ! i) * 2] \<and>
        lines ! (4 + w * shape1 c + i) =
          join [CHR 0x09] (map g (data2 table ! (w * shape1 c + i)))"
    by blast
  have wf: "wf3 c" using assms(5) by (simp add: buffers_ok_def)
  have cell: "length (data3 c ! w ! i) = shape2 c" if "w < shape0 c" "i < shape1 c" for w i
  proof -
    have m: "data3 c ! w \<in> set (data3 c)" using wf that(1) by (simp add: wf3_def)
    then have "length (data3 c ! w) = shape1 c" using wf by (simp add: wf3_def list_all_iff)
    then have "data3 c ! w ! i \<in> set (data3 c ! w)" using that(2) by simp
    then show ?thesis using wf m by (simp add: wf3_def list_all_iff)
  qed
  have rows: "length (data2 table ! (w * shape1 c + i)) = shape2 c + 1 \<and>
        data2 table ! (w * shape1 c + i) ! shape2 c = - 2 * (data2 l ! w ! i) \<and>
        (\<forall>k < shape2 c.
           data2 table ! (w * shape1 c + i) ! k =
             (if par_log (par_of params (idxs ! k)) then 10 powr (data3 c ! w ! i ! k)
              else data3 c ! w ! i ! k)) \<and>
        lines ! (4 + w * shape1 c + i) =
          join [CHR 0x09] (map g (data2 table ! (w * shape1 c + i)))"
    if "w < shape0 c" "i < shape1 c" for w i
  proof -
    let ?v = "data3 c ! w ! i"
    let ?m = "map2 (\<lambda>idx x. if par_log (par_of params idx) then 10 powr x else x) idxs ?v"
    have e: "data2 table ! (w * shape1 c + i) = ?m @ [- (data2 l ! w ! i) * 2]"
      and ln: "lines ! (4 + w * shape1 c + i) =
          join [CHR 0x09] (map g (data2 table ! (w * shape1 c + i)))"
      using r that by simp_all
    have lm: "length ?m = shape2 c" using cell[OF that] assms(6) by simp
    have "(?m @ [- (data2 l ! w ! i) * 2]) ! shape2 c = - 2 * (data2 l ! w ! i)"
      using lm nth_append_length[of ?m] by simp
    moreover have "(?m @ [- (data2 l ! w ! i) * 2]) ! k =
             (if par_log (par_of params (idxs ! k)) then 10 powr (?v ! k) else ?v ! k)"
      if "k < shape2 c" for k
      using that lm cell[OF \<open>w < shape0 c\<close> \<open>i < shape1 c\<close>] assms(6)
      by (simp add: nth_append)
    ultimately show ?thesis using e ln lm by simp
  qed
  have "(s @ [A2 table]) ! chain = A3 c" "(s @ [A2 table]) ! lnprob = A2 l"
    using assms(1-4) by (simp_all add: nth_append)
  with x rows show ?thesis by blast
qed

theorem export_values_and_buffers_witness:
  "\<exists>lines table.
     writeXSpecChain (\<lambda>x. fmt_i \<lfloor>x\<rfloor>) 0 1 [example_par, example_par, example_norm] [1, 3]
       [A3 export_chain, A2 export_lnprob]
       = ([A3 export_chain, A2 export_lnprob, A2 table], lines, None) \<and>
     data2 table ! 2 ! 2 = 6 \<and> data2 table ! 2 ! 1 = 10 \<and> data2 table ! 2 ! 0 = 4 \<and>
     lines ! 6 = [CHR ''4'', CHR 0x09, CHR ''1'', CHR ''0'', CHR 0x09, CHR ''6'']"
proof -
  let ?s = "[A3 export_chain, A2 export_lnprob]"
  let ?ps = "[example_par, example_par, example_norm]"
  have h: "0 < length ?s" "1 < length ?s" "?s ! 0 = A3 export_chain" "?s ! 1 = A2 export_lnprob"
    "buffers_ok export_chain export_lnprob" "length [1, 3 :: int] = shape2 export_chain"
    "list_all (\<lambda>idx. 1 \<le> idx \<and> idx \<le> int (length ?ps)) [1, 3]"
    by (simp_all add: buffers_ok_def wf3_def wf2_def export_chain_def export_lnprob_def)
  from export_values_and_buffers[OF h, of "\<lambda>x. fmt_i \<lfloor>x\<rfloor>"]
  obtain s' lines table where
    x: "writeXSpecChain (\<lambda>x. fmt_i \<lfloor>x\<rfloor>) 0 1 ?ps [1, 3] ?s = (s', lines, None)"
      "s' = ?s @ [A2 table]"
    and r: "\<forall>w < shape0 export_chain. \<forall>i < shape1 export_chain.
        data2 table ! (w * shape1 export_chain + i) ! shape2 export_chain
          = - 2 * (data2 export_lnprob ! w ! i) \<and>
        (\<forall>k < shape2 export_chain.
           data2 table ! (w * shape1 export_chain + i) ! k =
             (if par_log (par_of ?ps ([1, 3] ! k)) then 10 powr (data3 export_chain ! w ! i ! k)
              else data3 export_chain ! w ! i ! k)) \<and>
        lines ! (4 + w * shape1 export_chain + i) =
          join [CHR 0x09] (map (\<lambda>x. fmt_i \<lfloor>x\<rfloor>) (data2 table ! (w * shape1 export_chain + i)))"
    by blast
  have w: "(1::nat) < shape0 export_chain" "(0::nat) < shape1 export_chain"
    by (simp_all add: export_chain_def)
  from r w have
    a: "data2 table ! (1 * shape1 export_chain + 0) ! shape2 export_chain
          = - 2 * (data2 export_lnprob ! 1 ! 0)"
    and b: "\<forall>k < shape2 export_chain.
           data2 table ! (1 * shape1 export_chain + 0) ! k =
             (if par_log (par_of ?ps ([1, 3] ! k)) then 10 powr (data3 export_chain ! 1 ! 0 ! k)
              else data3 export_chain ! 1 ! 0 ! k)"
    by blast+
  have a': "data2 table ! 2 ! 2 = 6"
    using a by (simp add: export_chain_def export_lnprob_def)
  have "(1::nat) < shape2 export_chain" "(0::nat) < shape2 export_chain"
    by (simp_all add: export_chain_def)
  with b have "data2 table ! (1 * shape1 export_chain + 0) ! 1 =
             (if par_log (par_of ?ps ([1, 3] ! 1)) then 10 powr (data3 export_chain ! 1 ! 0 ! 1)
              else data3 export_chain ! 1 ! 0 ! 1)"
    and "data2 table ! (1 * shape1 export_chain + 0) ! 0 =
             (if par_log (par_of ?ps ([1, 3] ! 0)) then 10 powr (data3 export_chain ! 1 ! 0 ! 0)
              else data3 export_chain ! 1 ! 0 ! 0)"
    by blast+
  then have b': "data2 table ! 2 ! 1 = 10" "data2 table ! 2 ! 0 = 4"
    by (simp_all add: export_chain_def par_of_def example_norm_def example_par_def)
  have "fst (snd (writeXSpecChain (\<lambda>x. fmt_i \<lfloor>x\<rfloor>) 0 1 ?ps [1, 3] ?s)) ! 6
          = [CHR ''4'', CHR 0x09, CHR ''1'', CHR ''0'', CHR 0x09, CHR ''6'']"
    by code_simp
  then have l: "lines ! 6 = [CHR ''4'', CHR 0x09, CHR ''1'', CHR ''0'', CHR 0x09, CHR ''6'']"
    using x by simp
  have "writeXSpecChain (\<lambda>x. fmt_i \<lfloor>x\<rfloor>) 0 1 ?ps [1, 3] ?s
          = ([A3 export_chain, A2 export_lnprob, A2 table], lines, None)"
    using x by simp
  with a' b' l show ?thesis by - (intro exI conjI, assumption+)
qed

text \<open>
  C7.  For a chain of shape \<open>(nwalkers, niters, ndims)\<close> with its log-probabilities and a
  pool that lists one valid index per column: the file has four header lines and
  \<open>nwalkers * niters\<close> data lines; the third line states that count and the width
  \<open>ndims + 1\<close>; the fourth names every column as index, name and unit, the unit
  replaced by \<^verbatim>\<open>0\<close> when it is empty, and ends with \<^verbatim>\<open>Chi-Squared\<close>; the data line
  number \<open>w * niters + i\<close> is the sample of walker \<open>w\<close> at iteration \<open>i\<close>: one column per
  entry of \<^verbatim>\<open>paridxs\<close>, in that order, followed by the derived column.
\<close>

theorem export_table_layout:
  assumes "chain < length s" "lnprob < length s" "s ! chain = A3 c" "s ! lnprob = A2 l"
    "buffers_ok c l" "length idxs = shape2 c"
    "list_all (\<lambda>idx. 1 \<le> idx \<and> idx \<le> int (length params)) idxs"
  shows "\<exists>s' lines.
     writeXSpecChain g chain lnprob params idxs s = (s', lines, None) \<and>
     length lines = 4 + shape0 c * shape1 c \<and>
     take 2 lines = chain_file_head \<and>
     lines ! 2 = ''!Length: '' @ fmt_i (int (shape0 c * shape1 c)) @ ''  Width: '' @
                 fmt_i (int (shape2 c) + 1) \<and>
     lines ! 3 = ''!'' @ join '' ''
       (map (\<lambda>idx. fmt_i idx @ '' '' @ par_name (par_of params idx) @ '' '' @
                   (if par_unit (par_of params idx) = [] then ''0''
                    else par_unit (par_of params idx))) idxs @ [''Chi-Squared'']) \<and>
     (\<forall>w < shape0 c. \<forall>i < shape1 c.
        lines ! (4 + w * shape1 c + i) =
          join [CHR 0x09]
            (map g (map2 (\<lambda>idx x. if par_log (par_of params idx) then 10 powr x else x) idxs
                      (data3 c ! w ! i) @ [- (data2 l ! w ! i) * 2])))"
proof -
  from export_lines[OF assms, of g]
  obtain table lines where
    x: "writeXSpecChain g chain lnprob params idxs s = (s @ [A2 table], lines, None)"
    and p: "length lines = 4 + shape0 c * shape1 c" "take 2 lines = chain_file_head"
      "lines ! 2 = ''!Length: '' @ fmt_i (int (shape0 c * shape1 c)) @ ''  Width: '' @
                 fmt_i (int (shape2 c) + 1)"
      "lines ! 3 = ''!'' @ join '' '' (map (label_of params) idxs @ [''Chi-Squared''])"
    and r: "\<forall>w < shape0 c. \<forall>i < shape1 c.
        data2 table ! (w * shape1 c + i) =
          map2 (\<lambda>idx x. if par_log (par_of params idx) then 10 powr x else x) idxs
            (data3 c ! w ! i) @ [- (data2 l ! w ! i) * 2] \<and>
        lines ! (4 + w * shape1 c + i) =
          join [CHR 0x09] (map g (data2 table ! (w * shape1 c + i)))"
    by blast
  have lab: "label_of params = (\<lambda>idx. fmt_i idx @ '' '' @ par_name (par_of params idx) @ '' '' @
                   (if par_unit (par_of params idx) = [] then ''0''
                    else par_unit (par_of params idx)))"
    by (rule ext) (simp add: label_of_def)
  have "\<forall>w < shape0 c. \<forall>i < shape1 c.
        lines ! (4 + w * shape1 c + i) =
          join [CHR 0x09]
            (map g (map2 (\<lambda>idx x. if par_log (par_of params idx) then 10 powr x else x) idxs
                      (data3 c ! w ! i) @ [- (data2 l ! w ! i) * 2]))"
    using r by simp
  with x p show ?thesis unfolding lab by blast
qed

text \<open>
  Two walkers, two iterations, two free parameters (the first and the third of the
  pool's list): four data lines, three columns.
\<close>

theorem export_table_layout_witness:
  "\<exists>s' lines.
     writeXSpecChain (\<lambda>x. fmt_i \<lfloor>x\<rfloor>) 0 1 [example_par, example_par, example_norm] [1, 3]
       [A3 export_chain, A2 export_lnprob] = (s', lines, None) \<and>
     length lines = 8 \<and>
     lines ! 2 = ''!Length: 4  Width: 3'' \<and>
     lines ! 3 = ''!1 kT keV 3 norm 0 Chi-Squared'' \<and>
     lines ! 5 = [CHR ''3'', CHR 0x09, CHR ''1'', CHR 0x09, CHR ''4'']"
proof -
  let ?s = "[A3 export_chain, A2 export_lnprob]"
  let ?ps = "[example_par, example_par, example_norm]"
  let ?g = "\<lambda>x::real. fmt_i \<lfloor>x\<rfloor>"
  have h: "0 < length ?s" "1 < length ?s" "?s ! 0 = A3 export_chain" "?s ! 1 = A2 export_lnprob"
    "buffers_ok export_chain export_lnprob" "length [1, 3 :: int] = shape2 export_chain"
    "list_all (\<lambda>idx. 1 \<le> idx \<and> idx \<le> int (length ?ps)) [1, 3]"
    by (simp_all add: buffers_ok_def wf3_def wf2_def export_chain_def export_lnprob_def)
  from export_table_layout[OF h, of ?g]
  obtain s' lines where
    x: "writeXSpecChain ?g 0 1 ?ps [1, 3] ?s = (s', lines, None)"
    and n: "length lines = 4 + shape0 export_chain * shape1 export_chain"
    by blast
  have "fst (snd (writeXSpecChain ?g 0 1 ?ps [1, 3] ?s)) ! 2 = ''!Length: 4  Width: 3''"
    "fst (snd (writeXSpecChain ?g 0 1 ?ps [1, 3] ?s)) ! 3 = ''!1 kT keV 3 norm 0 Chi-Squared''"
    "fst (snd (writeXSpecChain ?g 0 1 ?ps [1, 3] ?s)) ! 5
        = [CHR ''3'', CHR 0x09, CHR ''1'', CHR 0x09, CHR ''4'']"
    by code_simp+
  then have l: "lines ! 2 = ''!Length: 4  Width: 3''"
    "lines ! 3 = ''!1 kT keV 3 norm 0 Chi-Squared''"
    "lines ! 5 = [CHR ''3'', CHR 0x09, CHR ''1'', CHR 0x09, CHR ''4'']"
    using x by simp_all
  have "length lines = 8" using n by (simp add: export_chain_def)
  with x l show ?thesis by - (intro exI conjI, assumption+)
qed

end
